theory Spec2Isabelle
  imports Complex_Main "HOL-Library.Multiset" "HOL-Library.Log_Nat"
begin

section \<open>Data model (src/types/index.ts)\<close>

text \<open>
  JavaScript values are modelled as follows.
  \<^item> Counts (\<open>number\<close> fields holding integers) are \<^typ>\<open>int\<close>; the one computed fraction,
    a percentage, is an IEEE 754 double, represented by the \<^typ>\<open>rat\<close> it denotes.
  \<^item> \<open>string | null\<close> is \<^typ>\<open>string option\<close>; strings are ASCII.
  \<^item> A date string is represented by the instant \<open>new Date(s).getTime()\<close> gives for it,
    in milliseconds since the epoch, and by \<open>None\<close> when it does not parse
    (\<open>Invalid Date\<close>, whose time value is \<open>NaN\<close>). The empty string does not parse.
  \<^item> A calendar day \<open>YYYY-MM-DD\<close>, as \<open>toISOString().split('T')[0]\<close> yields it, is
    represented by its number of days since the epoch.
  Where two interfaces of the source use the same field name, the fields of the second
  carry a short prefix.
\<close>

type_synonym js_date = "int option"
type_synonym day = int

record RepositoryMetadata =
  name :: string
  full_name :: string
  description :: "string option"
  url :: string
  stars :: int
  forks :: int
  language :: "string option"
  topics :: "string list"
  last_updated :: js_date
  created_at :: js_date
  open_issues :: int
  homepage :: "string option"

record CommitMetadata =
  sha :: string
  message :: string
  author :: string
  date :: js_date
  commit_url :: string
  repository :: string

record LanguageStats =
  ls_language :: string
  ls_count :: int
  ls_repositories :: "string list"
  ls_percentage :: rat

record RepositoryStats =
  total_repositories :: int
  total_stars :: int
  total_forks :: int
  total_size_kb :: int
  languages :: "LanguageStats list"
  most_starred_repo :: "RepositoryMetadata option"
  most_forked_repo :: "RepositoryMetadata option"
  recently_updated :: "RepositoryMetadata list"
  total_open_issues :: int

record ContributionActivity =
  total_commits :: int
  total_prs :: int
  total_issues :: int
  total_reviews :: int
  repositories_contributed_to :: int
  most_active_day :: "day option"
  contribution_streak :: int

datatype sort_field = By_stars | By_forks | By_updated | By_created | By_name
datatype sort_order = Asc | Desc

record SearchFilters =
  f_language :: "string option"
  f_topic :: "string option"
  f_min_stars :: "int option"
  f_sort_by :: "sort_field option"
  f_order :: "sort_order option"

text \<open>The repository and commit objects of the remote API.\<close>

record Repository =
  repo_id :: int
  repo_name :: string
  repo_full_name :: string
  repo_description :: "string option"
  html_url :: string
  stargazers_count :: int
  forks_count :: int
  watchers_count :: int
  repo_language :: "string option"
  repo_topics :: "string list option"
  repo_created_at :: js_date
  updated_at :: js_date
  pushed_at :: js_date
  repo_size :: int
  open_issues_count :: int
  is_template :: bool
  visibility :: string
  default_branch :: string
  repo_homepage :: "string option"
  archived :: bool
  disabled :: bool
  fork :: bool

record CommitAuthor =
  author_name :: string
  author_email :: string
  author_date :: js_date

record Commit =
  commit_sha :: string
  commit_author :: "CommitAuthor option"
  commit_message :: string
  commit_html_url :: string

text \<open>A timestamp \<open>new Date().toISOString()\<close> is represented by the instant it renders.\<close>

record ErrorResponse =
  er_error :: string
  er_message :: string
  er_details :: "string option"
  er_timestamp :: int

record 'a ToolResult =
  success :: bool
  data :: "'a option"
  error :: "ErrorResponse option"
  cached :: "bool option"
  timestamp :: int

section \<open>Library behaviour used by the source\<close>

text \<open>
  A thrown value is an \<open>Error\<close> (of any subclass) with its message, or some other value,
  kept as the string \<open>String(v)\<close> gives for it.
\<close>

datatype thrown = Error string | NonError string

text \<open>
  \<open>Array.prototype.sort(cmp)\<close>; \<open>cmp\<close> returning \<open>NaN\<close> counts as \<open>0\<close>, which the
  comparators below write out. The language standard (ECMA-262, Array.prototype.sort)
  fixes the result when \<open>cmp\<close> is a consistent comparator for the elements: it is the
  stable ordering, which insertion from the right computes (\<open>js_sort\<close>). A comparator
  that subtracts integer keys is consistent on every array, and such a sort is written
  with \<open>js_sort\<close> directly.
\<close>

fun insort_cmp :: "('a \<Rightarrow> 'a \<Rightarrow> int) \<Rightarrow> 'a \<Rightarrow> 'a list \<Rightarrow> 'a list" where
  "insort_cmp cmp x [] = [x]"
| "insort_cmp cmp x (y # ys) =
     (if cmp x y \<le> 0 then x # y # ys else y # insort_cmp cmp x ys)"

definition js_sort :: "('a \<Rightarrow> 'a \<Rightarrow> int) \<Rightarrow> 'a list \<Rightarrow> 'a list" where
  "js_sort cmp xs = foldr (insort_cmp cmp) xs []"

text \<open>
  A consistent comparator, as the standard defines it: on the elements of the array,
  \<open>cmp a a = 0\<close>, equivalence is symmetric and transitive, and so are \<open><\<close> and \<open>>\<close>.
\<close>

definition consistent :: "('a \<Rightarrow> 'a \<Rightarrow> int) \<Rightarrow> 'a list \<Rightarrow> bool" where
  "consistent cmp xs =
     (\<forall>a \<in> set xs. \<forall>b \<in> set xs. \<forall>c \<in> set xs.
        cmp a a = 0 \<and>
        (cmp a b = 0 \<longrightarrow> cmp b a = 0) \<and>
        (cmp a b = 0 \<and> cmp b c = 0 \<longrightarrow> cmp a c = 0) \<and>
        (cmp a b < 0 \<and> cmp b c < 0 \<longrightarrow> cmp a c < 0) \<and>
        (cmp a b > 0 \<and> cmp b c > 0 \<longrightarrow> cmp a c > 0))"

text \<open>
  When the comparator is not consistent the standard leaves the order to the
  implementation. It is then taken from the engine, which is part of the environment: a
  function that, from the length of the array and the outcomes of the comparator on pairs
  of positions, ranks the positions. The result lists the elements by rank, so it is a
  permutation of the array, and no more is known of it.
\<close>

type_synonym sort_engine = "nat \<Rightarrow> (nat \<Rightarrow> nat \<Rightarrow> int) \<Rightarrow> nat \<Rightarrow> nat"

definition engine_sort :: "sort_engine \<Rightarrow> ('a \<Rightarrow> 'a \<Rightarrow> int) \<Rightarrow> 'a list \<Rightarrow> 'a list" where
  "engine_sort eng cmp xs =
     (if consistent cmp xs then js_sort cmp xs
      else map (\<lambda>i. xs ! i)
             (sort_key (eng (length xs) (\<lambda>i j. cmp (xs ! i) (xs ! j))) [0..<length xs]))"

text \<open>\<open>xs.slice(0, n)\<close>: a negative \<open>n\<close> counts from the end of the array.\<close>

definition slice0 :: "int \<Rightarrow> 'a list \<Rightarrow> 'a list" where
  "slice0 n xs = (if n < 0 then take (nat (int (length xs) + n)) xs else take (nat n) xs)"

text \<open>\<open>String.prototype.toLowerCase\<close> and \<open>includes\<close>, on ASCII.\<close>

definition lower_char :: "char \<Rightarrow> char" where
  "lower_char c =
     (if (65::nat) \<le> of_char c \<and> of_char c \<le> (90::nat)
      then char_of (of_char c + (32::nat)) else c)"

definition toLowerCase :: "string \<Rightarrow> string" where
  "toLowerCase s = map lower_char s"

fun starts_with :: "string \<Rightarrow> string \<Rightarrow> bool" where
  "starts_with s [] = True"
| "starts_with [] (c # cs) = False"
| "starts_with (d # ds) (c # cs) = (d = c \<and> starts_with ds cs)"

fun str_includes :: "string \<Rightarrow> string \<Rightarrow> bool" where
  "str_includes [] sub = (sub = [])"
| "str_includes (d # ds) sub = (starts_with (d # ds) sub \<or> str_includes ds sub)"

text \<open>
  A \<open>Map\<close> keeps its keys in the order of their first insertion; \<open>set\<close> on a key that is
  present replaces the value where it stands.
\<close>

fun map_set :: "'k \<Rightarrow> 'v \<Rightarrow> ('k \<times> 'v) list \<Rightarrow> ('k \<times> 'v) list" where
  "map_set k v [] = [(k, v)]"
| "map_set k v ((k', v') # m) = (if k' = k then (k, v) # m else (k', v') # map_set k v m)"

definition map_get :: "('k \<times> 'v) list \<Rightarrow> 'k \<Rightarrow> 'v option" where
  "map_get m k = map_of m k"

text \<open>
  Arithmetic on \<open>number\<close>s is IEEE 754 double arithmetic: each operation returns the double
  nearest to its exact result, ties going to the even significand. A non-zero double is
  \<open>m * 2 ^ (e - 52)\<close> for an integer \<open>m\<close> with \<open>2 ^ 52 \<le> \<bar>m\<bar> < 2 ^ 53\<close>; \<open>exponent x\<close> is the
  \<open>e\<close> with \<open>2 ^ e \<le> x < 2 ^ (e + 1)\<close>, for positive \<open>x\<close>, and \<open>fl x\<close> is the double nearest to
  \<open>x\<close>. The exponent range is not bounded: overflow and subnormal numbers, which the
  quantities computed here do not reach, are not modelled.
\<close>

definition exponent :: "rat \<Rightarrow> int" where
  "exponent x =
     (let e0 = bitlen (fst (quotient_of x)) - bitlen (snd (quotient_of x))
      in if x < power_int 2 e0 then e0 - 1 else e0)"

definition rne :: "rat \<Rightarrow> int" where
  "rne y =
     (if y - of_int \<lfloor>y\<rfloor> < 1 / 2 then \<lfloor>y\<rfloor>
      else if y - of_int \<lfloor>y\<rfloor> > 1 / 2 then \<lfloor>y\<rfloor> + 1
      else if even \<lfloor>y\<rfloor> then \<lfloor>y\<rfloor> else \<lfloor>y\<rfloor> + 1)"

definition fl :: "rat \<Rightarrow> rat" where
  "fl x =
     (if x = 0 then 0
      else of_int (rne (x * power_int 2 (52 - exponent \<bar>x\<bar>))) * power_int 2 (exponent \<bar>x\<bar> - 52))"

section \<open>Utilities (src/utils.ts)\<close>

text \<open>
  \<open>Math.round((value / total) * 100 * 100) / 100\<close>: a division, two multiplications and
  a division of doubles, each rounded. \<open>Math.round(x)\<close> is exactly \<open>\<lfloor>x + 1/2\<rfloor>\<close>, which is
  \<^const>\<open>round\<close>. The arguments are lengths of arrays, which doubles represent exactly.
\<close>

definition calculatePercentage :: "int \<Rightarrow> int \<Rightarrow> rat" where
  "calculatePercentage val tot =
     (if tot = 0 then 0
      else fl (of_int (round (fl (fl (fl (of_int val / of_int tot) * 100) * 100))) / 100))"

definition getErrorMessage :: "thrown \<Rightarrow> string" where
  "getErrorMessage err = (case err of Error m \<Rightarrow> m | NonError v \<Rightarrow> v)"

definition createErrorResponse :: "int \<Rightarrow> string \<Rightarrow> string \<Rightarrow> ErrorResponse" where
  "createErrorResponse clock code msg =
     \<lparr> er_error = code, er_message = msg, er_details = None, er_timestamp = clock \<rparr>"

section \<open>Cache (src/cache.ts)\<close>

text \<open>
  Modelled from the spec: the \<open>NodeCache\<close> class of the node-cache package, which
  \<open>CacheService\<close> wraps and which is not part of the sources. The specification describes it
  as a mapping from key to (payload, insertion time, ttl) in which an entry is expired once
  \<open>now - insertion_time >= ttl\<close>; \<open>get\<close> checks expiry itself, and a periodic sweep removes
  the expired entries. The clock counts milliseconds and a time-to-live is in seconds.
\<close>

record 'v cache_entry =
  payload :: 'v
  inserted :: int
  ttl :: int

type_synonym ('k, 'v) node_cache = "'k \<Rightarrow> 'v cache_entry option"

definition expired :: "int \<Rightarrow> 'v cache_entry \<Rightarrow> bool" where
  "expired clock en = (clock - inserted en \<ge> ttl en * 1000)"

definition nc_get :: "int \<Rightarrow> 'k \<Rightarrow> ('k, 'v) node_cache \<Rightarrow> 'v option \<times> ('k, 'v) node_cache" where
  "nc_get clock k c =
     (case c k of
        None \<Rightarrow> (None, c)
      | Some en \<Rightarrow> if expired clock en then (None, c(k := None)) else (Some (payload en), c))"

definition nc_set :: "int \<Rightarrow> 'k \<Rightarrow> 'v \<Rightarrow> int \<Rightarrow> ('k, 'v) node_cache \<Rightarrow> ('k, 'v) node_cache" where
  "nc_set clock k v t c = c(k \<mapsto> \<lparr> payload = v, inserted = clock, ttl = t \<rparr>)"

definition nc_sweep :: "int \<Rightarrow> ('k, 'v) node_cache \<Rightarrow> ('k, 'v) node_cache" where
  "nc_sweep clock c =
     (\<lambda>k. case c k of None \<Rightarrow> None | Some en \<Rightarrow> if expired clock en then None else Some en)"

text \<open>
  \<open>CacheService.get\<close> and \<open>CacheService.set\<close>; the trace they print is left out.
  \<open>ttl || config.cache_ttl\<close> takes the configured value when \<open>ttl\<close> is absent or \<open>0\<close>.
\<close>

definition cache_get :: "int \<Rightarrow> 'k \<Rightarrow> ('k, 'v) node_cache \<Rightarrow> 'v option \<times> ('k, 'v) node_cache" where
  "cache_get clock k c = nc_get clock k c"

definition cache_set ::
  "int \<Rightarrow> int \<Rightarrow> 'k \<Rightarrow> 'v \<Rightarrow> int option \<Rightarrow> ('k, 'v) node_cache \<Rightarrow> ('k, 'v) node_cache" where
  "cache_set config_ttl clock k v t c =
     nc_set clock k v (case t of None \<Rightarrow> config_ttl
                       | Some n \<Rightarrow> if n \<noteq> 0 then n else config_ttl) c"

section \<open>Derivations of the GitHub client (src/github-client.ts)\<close>

subsection \<open>Repository statistics\<close>

text \<open>A string is truthy when it is not empty; \<open>null\<close> is falsy.\<close>

definition truthy_str :: "string option \<Rightarrow> bool" where
  "truthy_str s = (case s of None \<Rightarrow> False | Some t \<Rightarrow> t \<noteq> [])"

definition languageMap_step ::
  "(string \<times> string list) list \<Rightarrow> RepositoryMetadata \<Rightarrow> (string \<times> string list) list" where
  "languageMap_step m repo =
     (case language repo of
        None \<Rightarrow> m
      | Some l \<Rightarrow>
          if l \<noteq> [] then
            (let existing = (case map_get m l of None \<Rightarrow> [] | Some e \<Rightarrow> e)
             in map_set l (existing @ [name repo]) m)
          else m)"

definition languageMap :: "RepositoryMetadata list \<Rightarrow> (string \<times> string list) list" where
  "languageMap repos = foldl languageMap_step [] repos"

definition language_entry :: "RepositoryMetadata list \<Rightarrow> string \<times> string list \<Rightarrow> LanguageStats" where
  "language_entry repos e =
     \<lparr> ls_language = fst e,
       ls_count = int (length (snd e)),
       ls_repositories = snd e,
       ls_percentage = calculatePercentage (int (length (snd e))) (int (length repos)) \<rparr>"

definition languages_of :: "RepositoryMetadata list \<Rightarrow> LanguageStats list" where
  "languages_of repos =
     js_sort (\<lambda>a b. ls_count b - ls_count a) (map (language_entry repos) (languageMap repos))"

text \<open>
  \<open>repos.reduce((max, repo) => repo.stars > (max?.stars || 0) ? repo : max, repos[0] || null)\<close>:
  the accumulator is \<open>null\<close> only for the empty array.
\<close>

definition or_zero :: "int \<Rightarrow> int" where
  "or_zero n = (if n = 0 then 0 else n)"

definition most_step ::
  "(RepositoryMetadata \<Rightarrow> int) \<Rightarrow> RepositoryMetadata option \<Rightarrow> RepositoryMetadata
     \<Rightarrow> RepositoryMetadata option" where
  "most_step field mx repo =
     (if field repo > (case mx of None \<Rightarrow> 0 | Some m \<Rightarrow> or_zero (field m))
      then Some repo else mx)"

definition most_by ::
  "(RepositoryMetadata \<Rightarrow> int) \<Rightarrow> RepositoryMetadata list \<Rightarrow> RepositoryMetadata option" where
  "most_by field repos =
     foldl (most_step field) (case repos of [] \<Rightarrow> None | r # _ \<Rightarrow> Some r) repos"

definition cmp_date_desc :: "js_date \<Rightarrow> js_date \<Rightarrow> int" where
  "cmp_date_desc a b = (case (b, a) of (Some tb, Some ta) \<Rightarrow> tb - ta | _ \<Rightarrow> 0)"

text \<open>
  \<open>new Date(b.last_updated).getTime() - new Date(a.last_updated).getTime()\<close> is \<open>NaN\<close> when
  a date does not parse, and the comparator is then not consistent in general.
\<close>

definition recentlyUpdated :: "sort_engine \<Rightarrow> RepositoryMetadata list \<Rightarrow> RepositoryMetadata list" where
  "recentlyUpdated eng repos =
     slice0 5 (engine_sort eng (\<lambda>a b. cmp_date_desc (last_updated a) (last_updated b)) repos)"

definition compute_stats :: "sort_engine \<Rightarrow> RepositoryMetadata list \<Rightarrow> RepositoryStats" where
  "compute_stats eng repos =
     \<lparr> total_repositories = int (length repos),
       total_stars = foldl (\<lambda>s repo. s + stars repo) 0 repos,
       total_forks = foldl (\<lambda>s repo. s + forks repo) 0 repos,
       total_size_kb = 0,
       languages = languages_of repos,
       most_starred_repo = most_by stars repos,
       most_forked_repo = most_by forks repos,
       recently_updated = recentlyUpdated eng repos,
       total_open_issues = foldl (\<lambda>s repo. s + open_issues repo) 0 repos \<rparr>"

subsection \<open>Search\<close>

definition language_matches :: "string \<Rightarrow> RepositoryMetadata \<Rightarrow> bool" where
  "language_matches l repo =
     (case language repo of None \<Rightarrow> False | Some rl \<Rightarrow> toLowerCase rl = toLowerCase l)"

definition topic_matches :: "string \<Rightarrow> RepositoryMetadata \<Rightarrow> bool" where
  "topic_matches t repo =
     list_ex (\<lambda>topic. str_includes (toLowerCase topic) (toLowerCase t)) (topics repo)"

definition apply_filters :: "SearchFilters \<Rightarrow> RepositoryMetadata list \<Rightarrow> RepositoryMetadata list" where
  "apply_filters filters repos =
     (let repos1 = (case f_language filters of
                      None \<Rightarrow> repos
                    | Some l \<Rightarrow> if l \<noteq> [] then filter (language_matches l) repos else repos);
          repos2 = (case f_topic filters of
                      None \<Rightarrow> repos1
                    | Some t \<Rightarrow> if t \<noteq> [] then filter (topic_matches t) repos1 else repos1);
          repos3 = (case f_min_stars filters of
                      None \<Rightarrow> repos2
                    | Some m \<Rightarrow> filter (\<lambda>repo. stars repo \<ge> m) repos2)
      in repos3)"

text \<open>
  \<open>a < b\<close> on strings compares code units lexicographically; on numbers it is false
  when either side is \<open>NaN\<close>. The comparator of the source never returns \<open>0\<close>, not even
  on an element and itself: it is not a consistent comparator, and the order of the
  sorted result is the engine's.
\<close>

fun str_less :: "string \<Rightarrow> string \<Rightarrow> bool" where
  "str_less [] [] = False"
| "str_less [] (c # cs) = True"
| "str_less (d # ds) [] = False"
| "str_less (d # ds) (c # cs) =
     ((of_char d :: nat) < of_char c \<or> (d = c \<and> str_less ds cs))"

definition num_less :: "int option \<Rightarrow> int option \<Rightarrow> bool" where
  "num_less a b = (case (a, b) of (Some x, Some y) \<Rightarrow> x < y | _ \<Rightarrow> False)"

definition field_less :: "sort_field \<Rightarrow> RepositoryMetadata \<Rightarrow> RepositoryMetadata \<Rightarrow> bool" where
  "field_less sortField a b =
     (case sortField of
        By_stars \<Rightarrow> stars a < stars b
      | By_forks \<Rightarrow> forks a < forks b
      | By_updated \<Rightarrow> num_less (last_updated a) (last_updated b)
      | By_created \<Rightarrow> num_less (created_at a) (created_at b)
      | By_name \<Rightarrow> str_less (toLowerCase (name a)) (toLowerCase (name b)))"

definition search_cmp :: "sort_field \<Rightarrow> sort_order \<Rightarrow> RepositoryMetadata \<Rightarrow> RepositoryMetadata \<Rightarrow> int" where
  "search_cmp sortField ord a b =
     (case ord of
        Asc \<Rightarrow> if field_less sortField b a then 1 else - 1
      | Desc \<Rightarrow> if field_less sortField a b then 1 else - 1)"

definition filters_applied :: "SearchFilters \<Rightarrow> bool" where
  "filters_applied filters =
     (truthy_str (f_language filters) \<or> truthy_str (f_topic filters) \<or> f_min_stars filters \<noteq> None)"

definition sort_results ::
  "sort_engine \<Rightarrow> SearchFilters \<Rightarrow> RepositoryMetadata list \<Rightarrow> RepositoryMetadata list" where
  "sort_results eng filters repos =
     (case f_sort_by filters of
        None \<Rightarrow> repos
      | Some sortField \<Rightarrow>
          engine_sort eng
            (search_cmp sortField (case f_order filters of None \<Rightarrow> Desc | Some ord \<Rightarrow> ord)) repos)"

subsection \<open>Contribution activity\<close>

text \<open>
  \<open>new Date(c.date).toISOString()\<close> raises a \<open>RangeError\<close> on an invalid date; on a valid
  one its date part is the UTC day of the instant. \<open>new Date(day).getTime()\<close> is the UTC
  midnight of that day.
\<close>

definition ms_per_day :: int where
  "ms_per_day = 1000 * 60 * 60 * 24"

definition iso_day :: "js_date \<Rightarrow> thrown + day" where
  "iso_day d = (case d of None \<Rightarrow> Inl (Error ''Invalid time value'')
                | Some t \<Rightarrow> Inr (t div ms_per_day))"

definition day_time :: "day \<Rightarrow> int" where
  "day_time d = d * ms_per_day"

text \<open>\<open>self.indexOf(x)\<close> is the first index of \<open>x\<close>, or \<open>-1\<close>.\<close>

fun indexOf :: "'a list \<Rightarrow> 'a \<Rightarrow> int" where
  "indexOf [] x = - 1"
| "indexOf (y # ys) x =
     (if y = x then 0 else (let i = indexOf ys x in if i < 0 then - 1 else i + 1))"

definition first_occurrences :: "'a list \<Rightarrow> 'a list" where
  "first_occurrences xs =
     map snd (filter (\<lambda>(i, d). indexOf xs d = int i) (enumerate 0 xs))"

text \<open>\<open>xs.map(f)\<close> where the callback may throw: the first throw ends the whole map.\<close>

fun try_map :: "('a \<Rightarrow> 'e + 'b) \<Rightarrow> 'a list \<Rightarrow> 'e + 'b list" where
  "try_map f [] = Inr []"
| "try_map f (x # xs) =
     (case f x of
        Inl e \<Rightarrow> Inl e
      | Inr y \<Rightarrow> (case try_map f xs of Inl e \<Rightarrow> Inl e | Inr ys \<Rightarrow> Inr (y # ys)))"

fun streak_loop :: "day list \<Rightarrow> int \<Rightarrow> int" where
  "streak_loop (cur # nxt # rest) streak =
     (let diffDays = (day_time cur - day_time nxt) div ms_per_day
      in if diffDays = 1 then streak_loop (nxt # rest) (streak + 1)
         else if diffDays > 1 then streak
         else streak_loop (nxt # rest) streak)"
| "streak_loop dates streak = streak"

definition calculateStreak :: "CommitMetadata list \<Rightarrow> thrown + int" where
  "calculateStreak commits =
     (if commits = [] then Inr 0
      else case try_map (\<lambda>c. iso_day (date c)) commits of
             Inl e \<Rightarrow> Inl e
           | Inr days \<Rightarrow>
               Inr (streak_loop
                      (js_sort (\<lambda>a b. day_time b - day_time a) (first_occurrences days)) 1))"

section \<open>Environment and state\<close>

datatype request =
    ListForUser nat
  | ReposGet string
  | GetAllTopics string
  | GetReadme string
  | ListCommits string int

text \<open>
  The environment of a run: the answers of the remote API, the two library functions that
  are left open (the decoding of base64 and the collation of \<open>localeCompare\<close>), the ordering
  the engine gives an array under a comparator that is not consistent, the clock and the
  configured time-to-live.
\<close>

record env =
  listForUser :: "nat \<Rightarrow> thrown + Repository list"
  repos_get :: "string \<Rightarrow> thrown + Repository"
  getAllTopics :: "string \<Rightarrow> thrown + string list"
  getReadme :: "string \<Rightarrow> thrown + string"
  listCommits :: "string \<Rightarrow> int \<Rightarrow> thrown + Commit list"
  decode_base64 :: "string \<Rightarrow> string"
  localeCompare :: "string \<Rightarrow> string \<Rightarrow> int"
  engine :: sort_engine
  clock :: int
  cache_ttl :: int

text \<open>
  The cache keeps the very objects it is given (\<open>useClones: false\<close>). The one kind of
  object that the client changes after it has been cached is an array of repositories,
  which \<open>searchProjectsByTech\<close> sorts in place: such an array is an address into \<open>arrays\<close>,
  so that what is done to it shows wherever it is held. The other cached values are never
  changed and are kept by value.
\<close>

type_synonym ref = nat

record world =
  arrays :: "ref \<Rightarrow> RepositoryMetadata list"
  next_ref :: ref
  repos_cache :: "(unit, ref) node_cache"
  repo_cache :: "(string, Repository) node_cache"
  readme_cache :: "(string, string) node_cache"
  commits_cache :: "(string \<times> int, CommitMetadata list) node_cache"
  stats_cache :: "(unit, RepositoryStats) node_cache"
  search_cache :: "(SearchFilters, ref) node_cache"
  activity_cache :: "(unit, ContributionActivity) node_cache"
  requests :: "request list"

text \<open>
  A method of the client runs on a world and returns, with the new world, a value or a
  thrown value; \<open>None\<close> stands for a run that does not return. The cache is split by key
  family (the keys of two families differ in their prefix), which gives each store its
  value type. The clock is read once for a whole operation.
\<close>

type_synonym 'a io = "world \<Rightarrow> ((thrown + 'a) \<times> world) option"

definition io_return :: "'a \<Rightarrow> 'a io" where
  "io_return x = (\<lambda>w. Some (Inr x, w))"

definition io_throw :: "thrown \<Rightarrow> 'a io" where
  "io_throw err = (\<lambda>w. Some (Inl err, w))"

definition io_bind :: "'a io \<Rightarrow> ('a \<Rightarrow> 'b io) \<Rightarrow> 'b io" where
  "io_bind m f =
     (\<lambda>w. case m w of
             None \<Rightarrow> None
           | Some (Inl err, w') \<Rightarrow> Some (Inl err, w')
           | Some (Inr x, w') \<Rightarrow> f x w')"

definition io_catch :: "'a io \<Rightarrow> (thrown \<Rightarrow> 'a io) \<Rightarrow> 'a io" where
  "io_catch m handler =
     (\<lambda>w. case m w of
             None \<Rightarrow> None
           | Some (Inl err, w') \<Rightarrow> handler err w'
           | Some (Inr x, w') \<Rightarrow> Some (Inr x, w'))"

definition io_lift :: "(thrown + 'a) \<Rightarrow> 'a io" where
  "io_lift r = (\<lambda>w. Some (r, w))"

fun io_map :: "('a \<Rightarrow> 'b io) \<Rightarrow> 'a list \<Rightarrow> 'b list io" where
  "io_map f [] = io_return []"
| "io_map f (x # xs) = io_bind (f x) (\<lambda>y. io_bind (io_map f xs) (\<lambda>ys. io_return (y # ys)))"

text \<open>
  A call of the remote API returns the response the environment holds for it and is
  recorded in \<open>requests\<close>.
\<close>

definition request_io :: "request \<Rightarrow> (thrown + 'a) \<Rightarrow> 'a io" where
  "request_io req response = (\<lambda>w. Some (response, w\<lparr> requests := requests w @ [req] \<rparr>))"

text \<open>A new array, the elements of an array, and an array written over in place.\<close>

definition array_new :: "RepositoryMetadata list \<Rightarrow> ref io" where
  "array_new xs =
     (\<lambda>w. Some (Inr (next_ref w),
                 w\<lparr> arrays := (arrays w)(next_ref w := xs), next_ref := Suc (next_ref w) \<rparr>))"

definition array_get :: "ref \<Rightarrow> RepositoryMetadata list io" where
  "array_get r = (\<lambda>w. Some (Inr (arrays w r), w))"

definition array_set :: "ref \<Rightarrow> RepositoryMetadata list \<Rightarrow> unit io" where
  "array_set r xs = (\<lambda>w. Some (Inr (), w\<lparr> arrays := (arrays w)(r := xs) \<rparr>))"

definition cache_get_io ::
  "(world \<Rightarrow> ('k, 'v) node_cache) \<Rightarrow>
   ((('k, 'v) node_cache \<Rightarrow> ('k, 'v) node_cache) \<Rightarrow> world \<Rightarrow> world) \<Rightarrow>
   env \<Rightarrow> 'k \<Rightarrow> 'v option io" where
  "cache_get_io sel upd e k =
     (\<lambda>w. Some (Inr (fst (cache_get (clock e) k (sel w))),
                 upd (\<lambda>_. snd (cache_get (clock e) k (sel w))) w))"

definition cache_set_io ::
  "((('k, 'v) node_cache \<Rightarrow> ('k, 'v) node_cache) \<Rightarrow> world \<Rightarrow> world) \<Rightarrow>
   env \<Rightarrow> 'k \<Rightarrow> 'v \<Rightarrow> unit io" where
  "cache_set_io upd e k v =
     (\<lambda>w. Some (Inr (), upd (cache_set (cache_ttl e) (clock e) k v None) w))"

section \<open>Methods of the GitHub client (src/github-client.ts)\<close>

definition handleApiError :: "thrown \<Rightarrow> thrown" where
  "handleApiError err =
     (case err of
        Error msg \<Rightarrow>
          if str_includes msg ''rate limit''
          then Error ''GitHub API rate limit exceeded. Please try again later.''
          else if str_includes msg ''401'' \<or> str_includes msg ''Bad credentials''
          then Error ''Invalid GitHub token. Please check your GITHUB_TOKEN in .env file.''
          else if str_includes msg ''404''
          then Error ''Repository or resource not found.''
          else Error msg
      | NonError v \<Rightarrow> Error v)"

definition to_metadata :: "Repository \<Rightarrow> RepositoryMetadata" where
  "to_metadata repo =
     \<lparr> name = repo_name repo,
       full_name = repo_full_name repo,
       description = repo_description repo,
       url = html_url repo,
       stars = stargazers_count repo,
       forks = forks_count repo,
       language = repo_language repo,
       topics = (case repo_topics repo of None \<Rightarrow> [] | Some ts \<Rightarrow> ts),
       last_updated = updated_at repo,
       created_at = repo_created_at repo,
       open_issues = open_issues_count repo,
       homepage = repo_homepage repo \<rparr>"

text \<open>
  The pagination loop of \<open>listRepositories\<close>. It ends at the first page that fails or is
  not full; against a remote that keeps answering with full pages it does not return.
\<close>

partial_function (option) fetch_pages ::
  "env \<Rightarrow> nat \<Rightarrow> Repository list \<Rightarrow> world \<Rightarrow> ((thrown + Repository list) \<times> world) option" where
  "fetch_pages e page repositories w =
     (case listForUser e page of
        Inl err \<Rightarrow> Some (Inl err, w\<lparr> requests := requests w @ [ListForUser page] \<rparr>)
      | Inr response_data \<Rightarrow>
          if length response_data = 100
          then fetch_pages e (page + 1) (repositories @ response_data)
                 (w\<lparr> requests := requests w @ [ListForUser page] \<rparr>)
          else Some (Inr (repositories @ response_data),
                     w\<lparr> requests := requests w @ [ListForUser page] \<rparr>))"

text \<open>
  \<open>listRepositories\<close> returns the array it has cached, or the one the cache held: the same
  object, not a copy.
\<close>

definition listRepositories :: "bool \<Rightarrow> env \<Rightarrow> ref io" where
  "listRepositories useCache e =
     io_bind (if useCache then cache_get_io repos_cache repos_cache_update e ()
              else io_return None)
       (\<lambda>cached. case cached of
          Some metadata \<Rightarrow> io_return metadata
        | None \<Rightarrow>
            io_catch
              (io_bind (fetch_pages e 1 [])
                 (\<lambda>repositories.
                    io_bind (array_new (map to_metadata repositories))
                      (\<lambda>metadata.
                         io_bind (cache_set_io repos_cache_update e () metadata)
                           (\<lambda>_. io_return metadata))))
              (\<lambda>err. io_throw (handleApiError err)))"

definition getRepositoryDetails :: "string \<Rightarrow> bool \<Rightarrow> env \<Rightarrow> Repository io" where
  "getRepositoryDetails repoName useCache e =
     io_bind (if useCache then cache_get_io repo_cache repo_cache_update e repoName
              else io_return None)
       (\<lambda>cached. case cached of
          Some repo \<Rightarrow> io_return repo
        | None \<Rightarrow>
            io_catch
              (io_bind (request_io (ReposGet repoName) (repos_get e repoName))
                 (\<lambda>repo.
                    io_bind
                      (io_catch
                         (io_bind (request_io (GetAllTopics repoName) (getAllTopics e repoName))
                            (\<lambda>names. io_return (repo\<lparr> repo_topics := Some names \<rparr>)))
                         (\<lambda>_. io_return (repo\<lparr> repo_topics := Some [] \<rparr>)))
                      (\<lambda>repo'. io_bind (cache_set_io repo_cache_update e repoName repo')
                                 (\<lambda>_. io_return repo'))))
              (\<lambda>err. io_throw (handleApiError err)))"

definition getRepositoryReadme :: "string \<Rightarrow> bool \<Rightarrow> env \<Rightarrow> string io" where
  "getRepositoryReadme repoName useCache e =
     io_bind (if useCache then cache_get_io readme_cache readme_cache_update e repoName
              else io_return None)
       (\<lambda>cached. case cached of
          Some (c # cs) \<Rightarrow> io_return (c # cs)
        | _ \<Rightarrow>
            io_catch
              (io_bind (request_io (GetReadme repoName) (getReadme e repoName))
                 (\<lambda>response_content.
                    io_bind (cache_set_io readme_cache_update e repoName
                               (decode_base64 e response_content))
                      (\<lambda>_. io_return (decode_base64 e response_content))))
              (\<lambda>err. io_return []))"

definition to_commit_metadata :: "string \<Rightarrow> Commit \<Rightarrow> CommitMetadata" where
  "to_commit_metadata repoName commit =
     \<lparr> sha = commit_sha commit,
       message = commit_message commit,
       author = (case commit_author commit of
                   None \<Rightarrow> ''Unknown''
                 | Some a \<Rightarrow> if author_name a \<noteq> [] then author_name a else ''Unknown''),
       date = (case commit_author commit of None \<Rightarrow> None | Some a \<Rightarrow> author_date a),
       commit_url = commit_html_url commit,
       repository = repoName \<rparr>"

definition repo_commits :: "env \<Rightarrow> RepositoryMetadata \<Rightarrow> CommitMetadata list io" where
  "repo_commits e repo =
     io_catch
       (io_bind (request_io (ListCommits (name repo) 5) (listCommits e (name repo) 5))
          (\<lambda>response_data. io_return (map (to_commit_metadata (name repo)) response_data)))
       (\<lambda>_. io_return [])"

definition commits_key :: "string option \<Rightarrow> int \<Rightarrow> string \<times> int" where
  "commits_key repoName limit =
     (case repoName of
        None \<Rightarrow> (''all'', limit)
      | Some n \<Rightarrow> if n \<noteq> [] then (n, limit) else (''all'', limit))"

definition getRecentCommits ::
  "string option \<Rightarrow> int \<Rightarrow> bool \<Rightarrow> env \<Rightarrow> CommitMetadata list io" where
  "getRecentCommits repoName limit useCache e =
     io_bind (if useCache
              then cache_get_io commits_cache commits_cache_update e (commits_key repoName limit)
              else io_return None)
       (\<lambda>cached. case cached of
          Some commits \<Rightarrow> io_return commits
        | None \<Rightarrow>
            io_catch
              (io_bind
                 (case repoName of
                    Some (c # cs) \<Rightarrow>
                      io_bind (request_io (ListCommits (c # cs) limit) (listCommits e (c # cs) limit))
                        (\<lambda>response_data.
                           io_return (map (to_commit_metadata (c # cs)) response_data))
                  | _ \<Rightarrow>
                      io_bind (io_bind (listRepositories useCache e) array_get)
                        (\<lambda>repos.
                           io_bind (io_map (repo_commits e) (slice0 10 repos))
                             (\<lambda>allCommits.
                                io_return
                                  (slice0 limit
                                     (engine_sort (engine e)
                                        (\<lambda>a b. cmp_date_desc (date a) (date b))
                                        (concat allCommits))))))
                 (\<lambda>commits.
                    io_bind (cache_set_io commits_cache_update e (commits_key repoName limit) commits)
                      (\<lambda>_. io_return commits)))
              (\<lambda>err. io_throw (handleApiError err)))"

definition getRepositoryStats :: "bool \<Rightarrow> env \<Rightarrow> RepositoryStats io" where
  "getRepositoryStats useCache e =
     io_bind (if useCache then cache_get_io stats_cache stats_cache_update e ()
              else io_return None)
       (\<lambda>cached. case cached of
          Some stats \<Rightarrow> io_return stats
        | None \<Rightarrow>
            io_catch
              (io_bind (io_bind (listRepositories useCache e) array_get)
                 (\<lambda>repos.
                    io_bind (cache_set_io stats_cache_update e () (compute_stats (engine e) repos))
                      (\<lambda>_. io_return (compute_stats (engine e) repos))))
              (\<lambda>err. io_throw (handleApiError err)))"

text \<open>
  Each \<open>filter\<close> that applies makes a new array; when none applies, \<open>repos\<close> is still the
  array that \<open>listRepositories\<close> returned, which the cache holds under the repository-list
  key and, possibly, under the keys of earlier searches. \<open>repos.sort(...)\<close> then sorts
  that array in place (\<open>sort_results\<close> leaves the elements as they are when no sort field
  is given), and the array itself goes into the cache and to the caller.
\<close>

definition searchProjectsByTech :: "SearchFilters \<Rightarrow> bool \<Rightarrow> env \<Rightarrow> ref io" where
  "searchProjectsByTech filters useCache e =
     io_bind (if useCache then cache_get_io search_cache search_cache_update e filters
              else io_return None)
       (\<lambda>cached. case cached of
          Some repos \<Rightarrow> io_return repos
        | None \<Rightarrow>
            io_catch
              (io_bind (listRepositories useCache e)
                 (\<lambda>listed.
                    io_bind
                      (if filters_applied filters
                       then io_bind (array_get listed)
                              (\<lambda>elements. array_new (apply_filters filters elements))
                       else io_return listed)
                      (\<lambda>repos.
                         io_bind (array_get repos)
                           (\<lambda>elements.
                              io_bind (array_set repos (sort_results (engine e) filters elements))
                                (\<lambda>_. io_bind (cache_set_io search_cache_update e filters repos)
                                        (\<lambda>_. io_return repos))))))
              (\<lambda>err. io_throw (handleApiError err)))"

text \<open>\<open>findMostActiveDay\<close>: \<open>None\<close> stands for the string \<open>N/A\<close>.\<close>

definition dayCount_step :: "(day \<times> int) list \<Rightarrow> day \<Rightarrow> (day \<times> int) list" where
  "dayCount_step dayCount d =
     map_set d ((case map_get dayCount d of None \<Rightarrow> 0 | Some n \<Rightarrow> or_zero n) + 1) dayCount"

definition maxDay_step :: "day option \<times> int \<Rightarrow> day \<times> int \<Rightarrow> day option \<times> int" where
  "maxDay_step acc entry =
     (if snd entry > snd acc then (Some (fst entry), snd entry) else acc)"

definition findMostActiveDay :: "CommitMetadata list \<Rightarrow> thrown + day option" where
  "findMostActiveDay commits =
     (if commits = [] then Inr None
      else case try_map (\<lambda>c. iso_day (date c)) commits of
             Inl err \<Rightarrow> Inl err
           | Inr days \<Rightarrow> Inr (fst (foldl maxDay_step (None, 0) (foldl dayCount_step [] days))))"

definition compute_activity :: "CommitMetadata list \<Rightarrow> thrown + ContributionActivity" where
  "compute_activity commits =
     (case findMostActiveDay commits of
        Inl err \<Rightarrow> Inl err
      | Inr most_active \<Rightarrow>
          (case calculateStreak commits of
             Inl err \<Rightarrow> Inl err
           | Inr streak \<Rightarrow>
               Inr \<lparr> total_commits = int (length commits),
                     total_prs = 0,
                     total_issues = 0,
                     total_reviews = 0,
                     repositories_contributed_to = int (card (set (map repository commits))),
                     most_active_day = most_active,
                     contribution_streak = streak \<rparr>))"

definition getContributionActivity :: "bool \<Rightarrow> env \<Rightarrow> ContributionActivity io" where
  "getContributionActivity useCache e =
     io_bind (if useCache then cache_get_io activity_cache activity_cache_update e ()
              else io_return None)
       (\<lambda>cached. case cached of
          Some activity \<Rightarrow> io_return activity
        | None \<Rightarrow>
            io_catch
              (io_bind (getRecentCommits None 100 useCache e)
                 (\<lambda>commits.
                    io_bind (io_lift (compute_activity commits))
                      (\<lambda>activity.
                         io_bind (cache_set_io activity_cache_update e () activity)
                           (\<lambda>_. io_return activity))))
              (\<lambda>err. io_throw (handleApiError err)))"

section \<open>Tools (src/tools)\<close>

definition success_result :: "env \<Rightarrow> bool \<Rightarrow> 'a \<Rightarrow> 'a ToolResult" where
  "success_result e use_cache d =
     \<lparr> success = True, data = Some d, error = None, cached = Some use_cache,
       timestamp = clock e \<rparr>"

definition failure_result :: "env \<Rightarrow> string \<Rightarrow> string \<Rightarrow> 'a ToolResult" where
  "failure_result e code msg =
     \<lparr> success = False, data = None, error = Some (createErrorResponse (clock e) code msg),
       cached = None, timestamp = clock e \<rparr>"

text \<open>\<open>const { use_cache = true } = args\<close>.\<close>

definition default_true :: "bool option \<Rightarrow> bool" where
  "default_true b = (case b of None \<Rightarrow> True | Some v \<Rightarrow> v)"

record ListRepositoriesArgs =
  lr_use_cache :: "bool option"
  lr_sort_by :: "sort_field option"
  lr_limit :: "int option"

definition list_cmp :: "env \<Rightarrow> sort_field \<Rightarrow> RepositoryMetadata \<Rightarrow> RepositoryMetadata \<Rightarrow> int" where
  "list_cmp e sort_by a b =
     (case sort_by of
        By_stars \<Rightarrow> stars b - stars a
      | By_forks \<Rightarrow> forks b - forks a
      | By_updated \<Rightarrow> cmp_date_desc (last_updated a) (last_updated b)
      | By_name \<Rightarrow> localeCompare e (name a) (name b)
      | By_created \<Rightarrow> 0)"

definition listRepositories_tool ::
  "ListRepositoriesArgs \<Rightarrow> env \<Rightarrow> RepositoryMetadata list ToolResult io" where
  "listRepositories_tool args e =
     io_catch
       (io_bind (io_bind (listRepositories (default_true (lr_use_cache args)) e) array_get)
          (\<lambda>repos.
             io_return
               (success_result e (default_true (lr_use_cache args))
                  ((case lr_limit args of
                      None \<Rightarrow> (\<lambda>rs. rs)
                    | Some limit \<Rightarrow> if limit \<noteq> 0 \<and> limit > 0 then slice0 limit else (\<lambda>rs. rs))
                     (case lr_sort_by args of
                        None \<Rightarrow> repos
                      | Some sort_by \<Rightarrow> engine_sort (engine e) (list_cmp e sort_by) repos)))))
       (\<lambda>err. io_return
                 (failure_result e ''LIST_REPOSITORIES_ERROR''
                    (''Failed to list repositories: '' @ getErrorMessage err)))"

record GetRepositoryDetailsArgs =
  rd_repository_name :: "string option"
  rd_use_cache :: "bool option"
  rd_include_readme :: "bool option"

record RepositoryDetailsResponse =
  rd_repository :: Repository
  rd_readme :: "string option"

definition getRepositoryDetails_tool ::
  "GetRepositoryDetailsArgs \<Rightarrow> env \<Rightarrow> RepositoryDetailsResponse ToolResult io" where
  "getRepositoryDetails_tool args e =
     io_catch
       (case rd_repository_name args of
          Some (c # cs) \<Rightarrow>
            io_bind (getRepositoryDetails (c # cs) (default_true (rd_use_cache args)) e)
              (\<lambda>repo.
                 io_bind
                   (if rd_include_readme args = Some True
                    then io_bind (getRepositoryReadme (c # cs) (default_true (rd_use_cache args)) e)
                           (\<lambda>readme. io_return \<lparr> rd_repository = repo, rd_readme = Some readme \<rparr>)
                    else io_return \<lparr> rd_repository = repo, rd_readme = None \<rparr>)
                   (\<lambda>response.
                      io_return (success_result e (default_true (rd_use_cache args)) response)))
        | _ \<Rightarrow> io_throw (Error ''repository_name is required''))
       (\<lambda>err. io_return
                 (failure_result e ''GET_REPOSITORY_DETAILS_ERROR''
                    (''Failed to get repository details: '' @ getErrorMessage err)))"

record GetRecentCommitsArgs =
  rc_repository_name :: "string option"
  rc_limit :: "int option"
  rc_use_cache :: "bool option"

definition getRecentCommits_tool ::
  "GetRecentCommitsArgs \<Rightarrow> env \<Rightarrow> CommitMetadata list ToolResult io" where
  "getRecentCommits_tool args e =
     io_catch
       (io_bind (getRecentCommits (rc_repository_name args)
                   (case rc_limit args of None \<Rightarrow> 50 | Some l \<Rightarrow> l)
                   (default_true (rc_use_cache args)) e)
          (\<lambda>commits. io_return (success_result e (default_true (rc_use_cache args)) commits)))
       (\<lambda>err. io_return
                 (failure_result e ''GET_RECENT_COMMITS_ERROR''
                    (''Failed to get recent commits: '' @ getErrorMessage err)))"

definition getRepositoryStats_tool :: "bool option \<Rightarrow> env \<Rightarrow> RepositoryStats ToolResult io" where
  "getRepositoryStats_tool use_cache e =
     io_catch
       (io_bind (getRepositoryStats (default_true use_cache) e)
          (\<lambda>stats. io_return (success_result e (default_true use_cache) stats)))
       (\<lambda>err. io_return
                 (failure_result e ''GET_REPOSITORY_STATS_ERROR''
                    (''Failed to get repository stats: '' @ getErrorMessage err)))"

definition searchProjectsByTech_tool ::
  "bool option \<Rightarrow> SearchFilters \<Rightarrow> env \<Rightarrow> RepositoryMetadata list ToolResult io" where
  "searchProjectsByTech_tool use_cache filters e =
     io_catch
       (io_bind (io_bind (searchProjectsByTech filters (default_true use_cache) e) array_get)
          (\<lambda>repos. io_return (success_result e (default_true use_cache) repos)))
       (\<lambda>err. io_return
                 (failure_result e ''SEARCH_PROJECTS_ERROR''
                    (''Failed to search projects: '' @ getErrorMessage err)))"

definition getContributionActivity_tool ::
  "bool option \<Rightarrow> env \<Rightarrow> ContributionActivity ToolResult io" where
  "getContributionActivity_tool use_cache e =
     io_catch
       (io_bind (getContributionActivity (default_true use_cache) e)
          (\<lambda>activity. io_return (success_result e (default_true use_cache) activity)))
       (\<lambda>err. io_return
                 (failure_result e ''GET_CONTRIBUTION_ACTIVITY_ERROR''
                    (''Failed to get contribution activity: '' @ getErrorMessage err)))"

section \<open>Notions used to state the properties\<close>

text \<open>The languages that occur as a truthy primary language.\<close>

definition present_languages :: "RepositoryMetadata list \<Rightarrow> string set" where
  "present_languages rs =
     set (concat (map (\<lambda>r. case language r of
                               None \<Rightarrow> []
                             | Some l \<Rightarrow> if l \<noteq> [] then [l] else []) rs))"

definition entries_total :: "(string \<times> string list) list \<Rightarrow> nat" where
  "entries_total m = sum_list (map (\<lambda>e. length (snd e)) m)"

text \<open>
  The streak as the specification words it: over the distinct days in descending order,
  the length of the leading run in which neighbours are exactly one day apart.
\<close>

fun run_length :: "day list \<Rightarrow> int" where
  "run_length [] = 0"
| "run_length [d] = 1"
| "run_length (d # e # ds) = (if d - e = 1 then 1 + run_length (e # ds) else 1)"

definition descending_days :: "day list \<Rightarrow> day list" where
  "descending_days ds = rev (sorted_list_of_set (set ds))"

definition commit_days :: "CommitMetadata list \<Rightarrow> day list" where
  "commit_days cs = map (\<lambda>c. the (date c) div ms_per_day) cs"


text \<open>
  The listing of repositories ends when some page fails or is not full; a method always
  returns when it returns from every world.
\<close>

definition page_stops :: "env \<Rightarrow> nat \<Rightarrow> bool" where
  "page_stops e p = (case listForUser e p of Inl _ \<Rightarrow> True | Inr d \<Rightarrow> length d \<noteq> 100)"

definition listing_ends :: "env \<Rightarrow> bool" where
  "listing_ends e = (\<exists>n. page_stops e (Suc n))"

definition always_returns :: "'a io \<Rightarrow> bool" where
  "always_returns m = (\<forall>w. m w \<noteq> None)"

text \<open>
  The two shapes of a result envelope: \<open>success = true\<close> with a data payload and the
  timestamp, and \<open>success = false\<close> with an error code, a message and the timestamp.
\<close>

definition is_success :: "env \<Rightarrow> 'a ToolResult \<Rightarrow> bool" where
  "is_success e res =
     (success res \<and> data res \<noteq> None \<and> error res = None \<and> timestamp res = clock e)"

definition is_failure :: "env \<Rightarrow> string \<Rightarrow> string \<Rightarrow> 'a ToolResult \<Rightarrow> bool" where
  "is_failure e code msg res =
     (\<not> success res \<and> data res = None \<and> timestamp res = clock e \<and>
      (case error res of
         None \<Rightarrow> False
       | Some er \<Rightarrow> er_error er = code \<and> er_message er = msg \<and> er_timestamp er = clock e))"

text \<open>
  A tool turns the outcome of its inner computation into an envelope: when the inner
  computation returns a value, the tool returns a success envelope; when it raises, the
  tool returns (and does not raise) the failure envelope with the tool's error code and
  the message made of the tool's prefix and the message of what was raised; the tool does
  not return only when the inner computation does not.
\<close>

definition envelope_for ::
  "env \<Rightarrow> string \<Rightarrow> string \<Rightarrow> ((thrown + 'a) \<times> world) option \<Rightarrow>
   ((thrown + 'b ToolResult) \<times> world) option \<Rightarrow> bool" where
  "envelope_for e code prefix inner outer =
     (case inner of
        None \<Rightarrow> outer = None
      | Some (Inr v, w1) \<Rightarrow>
          (case outer of Some (Inr res, w2) \<Rightarrow> is_success e res | _ \<Rightarrow> False)
      | Some (Inl err, w1) \<Rightarrow>
          (case outer of
             Some (Inr res, w2) \<Rightarrow> is_failure e code (prefix @ getErrorMessage err) res
           | _ \<Rightarrow> False))"

text \<open>The value a run returns, if it returns one.\<close>

definition returned :: "((thrown + 'a) \<times> world) option \<Rightarrow> 'a option" where
  "returned outcome = (case outcome of Some (Inr v, w) \<Rightarrow> Some v | _ \<Rightarrow> None)"

text \<open>A successful result reports the given value as its \<open>cached\<close> flag.\<close>

definition reports_cached :: "bool \<Rightarrow> ((thrown + 'a ToolResult) \<times> world) option \<Rightarrow> bool" where
  "reports_cached use_cache outcome =
     (case outcome of
        Some (Inr res, w') \<Rightarrow> success res \<longrightarrow> cached res = Some use_cache
      | _ \<Rightarrow> True)"

text \<open>
  What one repository contributes to the cross-repository commit list, whether its commits
  could be listed, whether the remote answers a request for 5 commits with at most 5, and
  the world in which the fetch starts after the cache lookup.
\<close>

definition commits_of :: "env \<Rightarrow> RepositoryMetadata \<Rightarrow> CommitMetadata list" where
  "commits_of e repo =
     (case listCommits e (name repo) 5 of
        Inl err \<Rightarrow> []
      | Inr response_data \<Rightarrow> map (to_commit_metadata (name repo)) response_data)"

definition commits_listed :: "env \<Rightarrow> RepositoryMetadata \<Rightarrow> bool" where
  "commits_listed e repo = (case listCommits e (name repo) 5 of Inl err \<Rightarrow> False | Inr d \<Rightarrow> True)"

definition honours_per_page :: "env \<Rightarrow> RepositoryMetadata list \<Rightarrow> bool" where
  "honours_per_page e repos =
     (\<forall>repo \<in> set repos.
        case listCommits e (name repo) 5 of Inl err \<Rightarrow> True | Inr d \<Rightarrow> length d \<le> 5)"

definition after_lookup :: "bool \<Rightarrow> env \<Rightarrow> string \<times> int \<Rightarrow> world \<Rightarrow> world" where
  "after_lookup useCache e key w =
     (if useCache
      then w\<lparr> commits_cache := snd (cache_get (clock e) key (commits_cache w)) \<rparr>
      else w)"

section \<open>Example data\<close>

definition example_repo :: "string \<Rightarrow> string option \<Rightarrow> int \<Rightarrow> RepositoryMetadata" where
  "example_repo n l s =
     \<lparr> name = n, full_name = ''octo/'' @ n, description = None, url = [], stars = s, forks = 0,
       language = l, topics = [], last_updated = Some 0, created_at = Some 0,
       open_issues = 0, homepage = None \<rparr>"

text \<open>A profile of 31 repositories, each in a language of its own.\<close>

definition numbered_repo :: "nat \<Rightarrow> RepositoryMetadata" where
  "numbered_repo n = example_repo ''r'' (Some (replicate n CHR ''x'')) 0"

definition example_polyglot :: "RepositoryMetadata list" where
  "example_polyglot = map numbered_repo [1..<32]"

definition example_commit :: "string \<Rightarrow> js_date \<Rightarrow> CommitMetadata" where
  "example_commit r d = \<lparr> sha = ''abc'', message = ''m'', author = ''octo'', date = d, commit_url = [], repository = r \<rparr>"


definition example_raw_repo :: "string \<Rightarrow> string option \<Rightarrow> int \<Rightarrow> Repository" where
  "example_raw_repo n l s =
     \<lparr> repo_id = 1, repo_name = n, repo_full_name = ''octo/'' @ n, repo_description = None,
       html_url = [], stargazers_count = s, forks_count = 0, watchers_count = 0,
       repo_language = l, repo_topics = None, repo_created_at = Some 0, updated_at = Some 0,
       pushed_at = Some 0, repo_size = 0, open_issues_count = 0, is_template = False,
       visibility = ''public'', default_branch = ''main'', repo_homepage = None,
       archived = False, disabled = False, fork = False \<rparr>"

definition example_raw_commit :: "string \<Rightarrow> js_date \<Rightarrow> Commit" where
  "example_raw_commit h d =
     \<lparr> commit_sha = h,
       commit_author = Some \<lparr> author_name = ''octo'', author_email = [], author_date = d \<rparr>,
       commit_message = ''m'', commit_html_url = [] \<rparr>"

definition empty_world :: world where
  "empty_world =
     \<lparr> arrays = (\<lambda>_. []), next_ref = 0,
       repos_cache = (\<lambda>_. None), repo_cache = (\<lambda>_. None), readme_cache = (\<lambda>_. None),
       commits_cache = (\<lambda>_. None), stats_cache = (\<lambda>_. None), search_cache = (\<lambda>_. None),
       activity_cache = (\<lambda>_. None), requests = [] \<rparr>"

text \<open>An engine that leaves an array it is not bound to sort as it is.\<close>

definition example_engine :: sort_engine where
  "example_engine n cmp i = i"

text \<open>A profile of twelve repositories; listing the commits of the third one fails.\<close>

definition example_env :: env where
  "example_env =
     \<lparr> listForUser = (\<lambda>page. if page = 1
          then Inr (map (\<lambda>n. example_raw_repo (replicate n CHR ''r'') (Some ''Go'') (int n)) [1..<13])
          else Inr []),
       repos_get = (\<lambda>n. if n = ''r'' then Inr (example_raw_repo ''r'' (Some ''Go'') 1)
                          else Inl (Error ''Not Found - 404'')),
       getAllTopics = (\<lambda>n. Inl (Error ''topics unavailable'')),
       getReadme = (\<lambda>n. Inl (Error ''Not Found - 404'')),
       listCommits = (\<lambda>n per_page. if n = ''rrr'' then Inl (Error ''Git Repository is empty.'')
                          else Inr [example_raw_commit n (Some (int (length n) * 86400000))]),
       decode_base64 = (\<lambda>s. s),
       localeCompare = (\<lambda>a b. 0),
       engine = example_engine,
       clock = 1000,
       cache_ttl = 3600 \<rparr>"

definition failing_env :: env where
  "failing_env = example_env\<lparr> listForUser := (\<lambda>page. Inl (Error ''API rate limit exceeded'')) \<rparr>"

text \<open>A remote that answers every page of the listing with a full page.\<close>

definition endless_env :: env where
  "endless_env =
     example_env\<lparr> listForUser := (\<lambda>page. Inr (replicate 100 (example_raw_repo ''r'' (Some ''Go'') 1))) \<rparr>"

definition example_repos :: "RepositoryMetadata list" where
  "example_repos =
     map (\<lambda>n. to_metadata (example_raw_repo (replicate n CHR ''r'') (Some ''Go'') (int n))) [1..<13]"

section \<open>Sorting\<close>

lemma mset_insort_cmp: "mset (insort_cmp cmp x xs) = add_mset x (mset xs)"
  by (induction xs) auto

lemma mset_js_sort: "mset (js_sort cmp xs) = mset xs"
  unfolding js_sort_def by (induction xs) (auto simp: mset_insort_cmp)

lemma sum_list_js_sort:
  fixes f :: "'a \<Rightarrow> rat"
  shows "sum_list (map f (js_sort cmp xs)) = sum_list (map f xs)"
proof -
  have "sum_list (map f ys) = sum_mset (image_mset f (mset ys))" for ys
    by (metis mset_map sum_mset_sum_list)
  then show ?thesis by (simp add: mset_js_sort)
qed

lemma length_js_sort: "length (js_sort cmp xs) = length xs"
  by (metis mset_js_sort size_mset)

lemma set_insort_cmp: "set (insort_cmp cmp x xs) = insert x (set xs)"
  by (induction xs) auto

lemma set_js_sort: "set (js_sort cmp xs) = set xs"
  unfolding js_sort_def by (induction xs) (auto simp: set_insort_cmp)

text \<open>A comparator that subtracts integer keys is consistent.\<close>

lemma consistent_key:
  fixes key :: "'a \<Rightarrow> int"
  assumes "\<And>a b. a \<in> set xs \<Longrightarrow> b \<in> set xs \<Longrightarrow> cmp a b = key b - key a"
  shows "consistent cmp xs"
  unfolding consistent_def
proof (intro ballI)
  fix a b c assume "a \<in> set xs" "b \<in> set xs" "c \<in> set xs"
  then have "cmp a a = key a - key a" "cmp a b = key b - key a" "cmp b a = key a - key b"
    "cmp b c = key c - key b" "cmp a c = key c - key a"
    using assms by blast+
  then show "cmp a a = 0 \<and>
        (cmp a b = 0 \<longrightarrow> cmp b a = 0) \<and>
        (cmp a b = 0 \<and> cmp b c = 0 \<longrightarrow> cmp a c = 0) \<and>
        (cmp a b < 0 \<and> cmp b c < 0 \<longrightarrow> cmp a c < 0) \<and>
        (cmp a b > 0 \<and> cmp b c > 0 \<longrightarrow> cmp a c > 0)"
    by simp
qed

lemma engine_sort_consistent: "consistent cmp xs \<Longrightarrow> engine_sort eng cmp xs = js_sort cmp xs"
  by (simp add: engine_sort_def)

text \<open>
  The two sorts that are written with \<open>js_sort\<close>, of the language breakdown by count and
  of the days of a streak, have consistent comparators.
\<close>

lemma consistent_counts: "consistent (\<lambda>a b. ls_count b - ls_count a) xs"
  by (rule consistent_key [where key = ls_count]) simp

lemma consistent_days: "consistent (\<lambda>a b. day_time b - day_time a) xs"
  by (rule consistent_key [where key = day_time]) simp

text \<open>
  Under a consistent comparator \<open>js_sort\<close> is the sort the standard prescribes: its result
  is ordered by the comparator, and elements that compare equal keep their order.
\<close>

lemma consistent_flip:
  assumes "consistent cmp xs" "a \<in> set xs" "b \<in> set xs" "cmp a b > 0"
  shows "cmp b a < 0"
proof (rule ccontr)
  assume n: "\<not> cmp b a < 0"
  have r: "cmp a a = 0" using assms(1,2) by (auto simp: consistent_def)
  show False
  proof (cases "cmp b a = 0")
    case True
    then have "cmp a b = 0" using assms(1-3) unfolding consistent_def by blast
    then show False using assms(4) by simp
  next
    case False
    then have "cmp b a > 0" using n by simp
    then have "cmp a a > 0" using assms unfolding consistent_def by blast
    then show False using r by simp
  qed
qed

lemma consistent_flip':
  assumes "consistent cmp xs" "a \<in> set xs" "b \<in> set xs" "cmp a b < 0"
  shows "cmp b a > 0"
proof (rule ccontr)
  assume n: "\<not> cmp b a > 0"
  have r: "cmp a a = 0" using assms(1,2) by (auto simp: consistent_def)
  show False
  proof (cases "cmp b a = 0")
    case True
    then have "cmp a b = 0" using assms(1-3) unfolding consistent_def by blast
    then show False using assms(4) by simp
  next
    case False
    then have "cmp b a < 0" using n by simp
    then have "cmp a a < 0" using assms unfolding consistent_def by blast
    then show False using r by simp
  qed
qed

lemma consistent_trans:
  assumes c: "consistent cmp xs" and s: "a \<in> set xs" "b \<in> set xs" "c \<in> set xs"
    and ab: "cmp a b \<le> 0" and bc: "cmp b c \<le> 0"
  shows "cmp a c \<le> 0"
proof (rule ccontr)
  assume "\<not> cmp a c \<le> 0"
  then have ac: "cmp a c > 0" by simp
  then have ca: "cmp c a < 0" using consistent_flip [OF c s(1) s(3)] by simp
  show False
  proof (cases "cmp a b = 0")
    case True
    then have ba: "cmp b a = 0" using c s unfolding consistent_def by blast
    show False
    proof (cases "cmp b c = 0")
      case True
      then have "cmp a c = 0" using \<open>cmp a b = 0\<close> c s unfolding consistent_def by blast
      then show False using ac by simp
    next
      case False
      then have "cmp b c < 0" using bc by simp
      then have "cmp b a < 0" using ca c s unfolding consistent_def by blast
      then show False using ba by simp
    qed
  next
    case False
    then have lt: "cmp a b < 0" using ab by simp
    then have "cmp c b < 0" using ca c s unfolding consistent_def by blast
    then have cb: "cmp b c > 0" using consistent_flip' [OF c s(3) s(2)] by simp
    then show False using bc by simp
  qed
qed

lemma sorted_insort_consistent:
  assumes c: "consistent cmp zs" and x: "x \<in> set zs" and ys: "set ys \<subseteq> set zs"
    and s: "sorted_wrt (\<lambda>a b. cmp a b \<le> 0) ys"
  shows "sorted_wrt (\<lambda>a b. cmp a b \<le> 0) (insort_cmp cmp x ys)"
  using ys s
proof (induction ys)
  case Nil
  then show ?case by simp
next
  case (Cons y ys)
  show ?case
  proof (cases "cmp x y \<le> 0")
    case True
    have "cmp x z \<le> 0" if "z \<in> set ys" for z
    proof -
      have "cmp y z \<le> 0" using Cons.prems(2) that by simp
      then show ?thesis
        using consistent_trans [OF c x _ _ True] Cons.prems(1) that by auto
    qed
    then show ?thesis using True Cons.prems(2) by auto
  next
    case False
    then have "cmp y x < 0"
      using consistent_flip [OF c x] Cons.prems(1) by auto
    then have "\<forall>z \<in> set (insort_cmp cmp x ys). cmp y z \<le> 0"
      using Cons.prems(2) by (auto simp: set_insort_cmp)
    moreover have "sorted_wrt (\<lambda>a b. cmp a b \<le> 0) (insort_cmp cmp x ys)"
      using Cons by auto
    ultimately show ?thesis using False by simp
  qed
qed

lemma sorted_js_sort_consistent:
  assumes "consistent cmp xs"
  shows "sorted_wrt (\<lambda>a b. cmp a b \<le> 0) (js_sort cmp xs)"
proof -
  have "sorted_wrt (\<lambda>a b. cmp a b \<le> 0) (js_sort cmp ys)" if "set ys \<subseteq> set xs" for ys
    using that
  proof (induction ys)
    case Nil
    then show ?case by (simp add: js_sort_def)
  next
    case (Cons y ys)
    have "sorted_wrt (\<lambda>a b. cmp a b \<le> 0) (insort_cmp cmp y (js_sort cmp ys))"
      using Cons by (intro sorted_insort_consistent [OF assms]) (auto simp: set_js_sort)
    then show ?case by (simp add: js_sort_def)
  qed
  then show ?thesis by simp
qed

lemma filter_insort_equal:
  assumes c: "consistent cmp zs" and x: "x \<in> set zs" and a: "a \<in> set zs"
    and ys: "set ys \<subseteq> set zs"
  shows "filter (\<lambda>y. cmp x y = 0) (insort_cmp cmp a ys)
           = filter (\<lambda>y. cmp x y = 0) (a # ys)"
  using ys
proof (induction ys)
  case Nil
  then show ?case by simp
next
  case (Cons y ys)
  show ?case
  proof (cases "cmp a y \<le> 0")
    case True
    then show ?thesis by simp
  next
    case False
    have "\<not> (cmp x a = 0 \<and> cmp x y = 0)"
    proof
      assume e: "cmp x a = 0 \<and> cmp x y = 0"
      have y: "y \<in> set zs" using Cons.prems by simp
      have "cmp a x = 0" using e c x a unfolding consistent_def by blast
      then have "cmp a y = 0" using e c x a y unfolding consistent_def by blast
      then show False using False by simp
    qed
    then show ?thesis using False Cons by auto
  qed
qed

lemma stable_js_sort:
  assumes "consistent cmp xs" "x \<in> set xs"
  shows "filter (\<lambda>y. cmp x y = 0) (js_sort cmp xs) = filter (\<lambda>y. cmp x y = 0) xs"
proof -
  have "filter (\<lambda>y. cmp x y = 0) (js_sort cmp ys) = filter (\<lambda>y. cmp x y = 0) ys"
    if "set ys \<subseteq> set xs" for ys
    using that
  proof (induction ys)
    case Nil
    then show ?case by (simp add: js_sort_def)
  next
    case (Cons y ys)
    have "filter (\<lambda>y. cmp x y = 0) (insort_cmp cmp y (js_sort cmp ys))
            = filter (\<lambda>y. cmp x y = 0) (y # js_sort cmp ys)"
      using Cons.prems
      by (intro filter_insort_equal [OF assms(1,2)]) (auto simp: set_js_sort)
    then show ?case using Cons by (simp add: js_sort_def)
  qed
  then show ?thesis by simp
qed

text \<open>Whatever the comparator and the engine, sorting permutes.\<close>

lemma mset_ranked: "mset (map (\<lambda>i. xs ! i) (sort_key f [0..<length xs])) = mset xs"
proof -
  have "mset (map (\<lambda>i. xs ! i) (sort_key f [0..<length xs]))
      = image_mset (\<lambda>i. xs ! i) (mset [0..<length xs])"
    by (simp only: mset_map mset_sort)
  also have "\<dots> = mset (map (\<lambda>i. xs ! i) [0..<length xs])"
    by (simp only: mset_map)
  also have "\<dots> = mset xs"
    by (simp add: map_nth)
  finally show ?thesis .
qed

lemma mset_engine_sort: "mset (engine_sort eng cmp xs) = mset xs"
  by (cases "consistent cmp xs")
     (simp_all only: engine_sort_def if_True if_False mset_js_sort mset_ranked)

lemma length_engine_sort: "length (engine_sort eng cmp xs) = length xs"
  by (metis mset_engine_sort size_mset)

section \<open>Rounding to a double\<close>

lemma bitlen_lower: "0 < p \<Longrightarrow> power_int (2::rat) (bitlen p - 1) \<le> of_int p"
proof -
  assume p: "0 < p"
  then have "2 ^ nat (bitlen p - 1) \<le> p" using bitlen_bounds by blast
  then have "(of_int (2 ^ nat (bitlen p - 1)) :: rat) \<le> of_int p" by (simp only: of_int_le_iff)
  moreover have "0 \<le> bitlen p - 1"
    using p bitlen_eq_zero_iff [of p] bitlen_nonneg [of p] by linarith
  ultimately show ?thesis by (simp add: power_int_def)
qed

lemma bitlen_upper: "0 < p \<Longrightarrow> of_int p < power_int (2::rat) (bitlen p)"
proof -
  assume p: "0 < p"
  then have "p < 2 ^ nat (bitlen p)" using bitlen_bounds by blast
  then have "(of_int p :: rat) < of_int (2 ^ nat (bitlen p))" by (simp only: of_int_less_iff)
  moreover have "0 \<le> bitlen p" using p by (simp add: bitlen_def)
  ultimately show ?thesis by (simp add: power_int_def)
qed

text \<open>The exponent of a positive number is the one that normalises its significand.\<close>

lemma exponent_bounds:
  assumes "0 < x"
  shows "power_int 2 (exponent x) \<le> x" and "x < power_int 2 (exponent x + 1)"
proof -
  obtain p q where pq: "quotient_of x = (p, q)" by (cases "quotient_of x")
  have q: "0 < q" using pq by (rule quotient_of_denom_pos)
  have x: "x = of_int p / of_int q" using pq by (rule quotient_of_div)
  have p: "0 < p" using assms q x by (simp add: zero_less_divide_iff)
  define e0 where "e0 = bitlen p - bitlen q"
  have ql: "power_int (2::rat) (bitlen q - 1) \<le> of_int q"
    and qu: "of_int q < power_int (2::rat) (bitlen q)"
    and pl: "power_int (2::rat) (bitlen p - 1) \<le> of_int p"
    and pu: "of_int p < power_int (2::rat) (bitlen p)"
    using p q by (simp_all add: bitlen_lower bitlen_upper)
  have lo: "power_int 2 (e0 - 1) \<le> x"
  proof -
    have "power_int (2::rat) (e0 - 1) * of_int q \<le> power_int 2 (e0 - 1) * power_int 2 (bitlen q)"
      using qu by (simp add: mult_left_mono)
    also have "\<dots> = power_int 2 (bitlen p - 1)"
      by (simp add: e0_def flip: power_int_add)
    also have "\<dots> \<le> of_int p" by (rule pl)
    finally show ?thesis using q by (simp add: x pos_le_divide_eq)
  qed
  have hi: "x < power_int 2 (e0 + 1)"
  proof -
    have "of_int p < power_int (2::rat) (bitlen p)" by (rule pu)
    also have "\<dots> = power_int 2 (e0 + 1) * power_int 2 (bitlen q - 1)"
      by (simp add: e0_def flip: power_int_add)
    also have "\<dots> \<le> power_int 2 (e0 + 1) * of_int q"
      using ql by (simp add: mult_left_mono)
    finally show ?thesis using q by (simp add: x pos_divide_less_eq)
  qed
  have e: "exponent x = (if x < power_int 2 e0 then e0 - 1 else e0)"
    by (simp add: exponent_def pq e0_def Let_def)
  show "power_int 2 (exponent x) \<le> x" using lo by (simp add: e)
  show "x < power_int 2 (exponent x + 1)" using hi by (auto simp: e)
qed

lemma rne_error: "\<bar>of_int (rne y) - y\<bar> \<le> 1 / 2"
proof -
  have "of_int \<lfloor>y\<rfloor> \<le> y" "y < of_int \<lfloor>y\<rfloor> + 1" by linarith+
  then show ?thesis by (auto simp: rne_def abs_le_iff)
qed

text \<open>Rounding to a double changes a number by at most the fraction \<open>2 ^ -53\<close> of it.\<close>

lemma fl_error: "\<bar>fl x - x\<bar> \<le> \<bar>x\<bar> / 2 ^ 53"
proof (cases "x = 0")
  case True
  then show ?thesis by (simp add: fl_def)
next
  case False
  define e where "e = exponent \<bar>x\<bar>"
  define s :: rat where "s = power_int 2 (e - 52)"
  have s: "0 < s" by (simp add: s_def zero_less_power_int)
  have inv: "power_int (2::rat) (52 - e) = 1 / s"
    by (simp add: s_def power_int_diff)
  have lo: "power_int 2 e \<le> \<bar>x\<bar>"
    using exponent_bounds(1) [of "\<bar>x\<bar>"] False by (simp add: e_def)
  have "fl x - x = (of_int (rne (x / s)) - x / s) * s"
    using False s by (simp add: fl_def e_def [symmetric] inv s_def [symmetric] algebra_simps)
  then have "\<bar>fl x - x\<bar> = \<bar>of_int (rne (x / s)) - x / s\<bar> * s"
    using s by (simp add: abs_mult)
  also have "\<dots> \<le> 1 / 2 * s"
    using rne_error [of "x / s"] s by (simp add: mult_right_mono)
  also have "\<dots> = power_int 2 e / 2 ^ 53"
    by (simp add: s_def power_int_diff)
  also have "\<dots> \<le> \<bar>x\<bar> / 2 ^ 53"
    using lo by (simp add: divide_right_mono)
  finally show ?thesis .
qed

lemma fl_error_bound:
  assumes "\<bar>x\<bar> \<le> B"
  shows "\<bar>fl x - x\<bar> \<le> B / 2 ^ 53"
proof -
  have "\<bar>fl x - x\<bar> \<le> \<bar>x\<bar> / 2 ^ 53" by (rule fl_error)
  also have "\<dots> \<le> B / 2 ^ 53" using assms by (simp add: divide_right_mono)
  finally show ?thesis .
qed

text \<open>
  A percentage differs from the exact share by at most half a hundredth, for the rounding
  to two decimals, and \<open>403 * 2 ^ -53\<close>, for the four floating-point operations.
\<close>

lemma percentage_error:
  assumes "0 \<le> c" "c \<le> n" "0 < n"
  shows "\<bar>calculatePercentage c n - of_int c * 100 / of_int n\<bar> \<le> 1 / 200 + 403 / 2 ^ 53"
proof -
  define u :: rat where "u = 1 / 2 ^ 53"
  have u: "0 \<le> u" "u \<le> 1 / 1000" by (simp_all add: u_def)
  define q :: rat where "q = of_int c / of_int n"
  define a where "a = fl q"
  define b where "b = fl (a * 100)"
  define y where "y = fl (b * 100)"
  define m where "m = round y"
  define p where "p = fl (of_int m / 100)"
  have q: "0 \<le> q" "q \<le> 1" using assms by (simp_all add: q_def)
  have ea: "\<bar>a - q\<bar> \<le> u"
    using fl_error_bound [of q 1] q by (simp add: a_def u_def)
  then have a: "\<bar>a * 100\<bar> \<le> 1001 / 10" using q u by linarith
  have eb: "\<bar>b - a * 100\<bar> \<le> 1001 / 10 * u"
    using fl_error_bound [OF a] by (simp add: b_def u_def)
  have "1001 / 10 * u \<le> 1001 / 10 * (1 / 1000)"
    using u by (intro mult_left_mono) simp_all
  then have b: "\<bar>b * 100\<bar> \<le> 10021" using eb a by linarith
  have ey: "\<bar>y - b * 100\<bar> \<le> 10021 * u"
    using fl_error_bound [OF b] by (simp add: y_def u_def)
  have "10021 * u \<le> 10021 * (1 / 1000)"
    using u by (intro mult_left_mono) simp_all
  then have y: "\<bar>y\<bar> \<le> 10032" using ey b by linarith
  have em: "\<bar>of_int m - y\<bar> \<le> 1 / 2"
    unfolding m_def by (rule of_int_round_abs_le)
  then have m: "\<bar>of_int m / 100 :: rat\<bar> \<le> 101" using y by linarith
  have ep: "\<bar>p - of_int m / 100\<bar> \<le> 101 * u"
    using fl_error_bound [OF m] by (simp add: p_def u_def)
  have "\<bar>p - 100 * q\<bar> \<le> 1 / 200 + 403 * u"
    using ea eb ey em ep by linarith
  moreover have "calculatePercentage c n = p"
    using assms by (simp add: calculatePercentage_def p_def m_def y_def b_def a_def q_def)
  moreover have "100 * q = of_int c * 100 / of_int n" by (simp add: q_def)
  ultimately show ?thesis by (simp add: u_def)
qed

section \<open>Language breakdown\<close>

lemma entries_total_map_set:
  "entries_total (map_set k ((case map_get m k of None \<Rightarrow> [] | Some e \<Rightarrow> e) @ [x]) m)
     = Suc (entries_total m)"
  by (induction m) (auto simp: entries_total_def map_get_def)

lemma entries_total_step:
  "entries_total (languageMap_step m r)
     = entries_total m + (if truthy_str (language r) then 1 else 0)"
  by (auto simp: languageMap_step_def truthy_str_def Let_def entries_total_map_set
           split: option.splits)

lemma entries_total_foldl:
  "entries_total (foldl languageMap_step m rs)
     = entries_total m + length (filter (\<lambda>r. truthy_str (language r)) rs)"
  by (induction rs arbitrary: m) (auto simp: entries_total_step)

lemma entries_total_languageMap:
  "entries_total (languageMap rs) = length (filter (\<lambda>r. truthy_str (language r)) rs)"
  using entries_total_foldl [of "[]" rs] by (simp add: languageMap_def entries_total_def)

lemma map_fst_map_set:
  "map fst (map_set k v m) = (if k \<in> fst ` set m then map fst m else map fst m @ [k])"
  by (induction m) force+

lemma keys_map_set: "fst ` set (map_set k v m) = insert k (fst ` set m)"
proof -
  have "set (map fst (map_set k v m)) = insert k (set (map fst m))"
    unfolding map_fst_map_set by auto
  then show ?thesis by simp
qed

lemma distinct_map_set: "distinct (map fst m) \<Longrightarrow> distinct (map fst (map_set k v m))"
  unfolding map_fst_map_set by auto

lemma present_languages_Cons:
  "present_languages (r # rs) = present_languages [r] \<union> present_languages rs"
  by (simp add: present_languages_def)

lemma keys_foldl:
  "fst ` set (foldl languageMap_step m rs) = fst ` set m \<union> present_languages rs"
proof (induction rs arbitrary: m)
  case Nil
  then show ?case by (simp add: present_languages_def)
next
  case (Cons r rs)
  have "fst ` set (languageMap_step m r) = fst ` set m \<union> present_languages [r]"
    by (auto simp: languageMap_step_def present_languages_def keys_map_set Let_def
             split: option.splits)
  then show ?case
    using Cons.IH [of "languageMap_step m r"] present_languages_Cons [of r rs] by auto
qed

lemma distinct_foldl:
  "distinct (map fst m) \<Longrightarrow> distinct (map fst (foldl languageMap_step m rs))"
proof (induction rs arbitrary: m)
  case Nil
  then show ?case by simp
next
  case (Cons r rs)
  have "distinct (map fst (languageMap_step m r))"
    using Cons.prems
    by (auto simp: languageMap_step_def Let_def distinct_map_set split: option.splits)
  then show ?case using Cons.IH by simp
qed

lemma length_languageMap: "length (languageMap rs) = card (present_languages rs)"
proof -
  have "distinct (map fst (languageMap rs))"
    by (simp add: languageMap_def distinct_foldl)
  moreover have "set (map fst (languageMap rs)) = present_languages rs"
    using keys_foldl [of "[]" rs] by (simp add: languageMap_def)
  ultimately show ?thesis
    by (metis distinct_card length_map)
qed

text \<open>
  23 repositories of 160 are 14.375 percent. In doubles the product
  \<open>23 / 160 * 100 * 100\<close> falls just below 1437.5, and the percentage is the double nearest
  to 14.37, where exact arithmetic would give 14.38.
\<close>

lemma percentage_example:
  "calculatePercentage 23 160 = 8089590830664253 / 562949953421312"
  by code_simp

lemma sum_abs_bound:
  fixes f g :: "'a \<Rightarrow> rat"
  assumes "\<And>x. x \<in> set xs \<Longrightarrow> \<bar>f x - g x\<bar> \<le> d"
  shows "\<bar>sum_list (map f xs) - sum_list (map g xs)\<bar> \<le> of_nat (length xs) * d"
  using assms
proof (induction xs)
  case Nil
  then show ?case by simp
next
  case (Cons a xs)
  have "\<bar>f a - g a\<bar> \<le> d" using Cons.prems by simp
  moreover have "\<bar>sum_list (map f xs) - sum_list (map g xs)\<bar> \<le> of_nat (length xs) * d"
    using Cons by simp
  ultimately show ?case by (simp add: algebra_simps abs_le_iff)
qed

lemma exact_sum:
  "sum_list (map (\<lambda>e. of_int (int (length (snd e))) * 100 / of_int (int (length rs)) :: rat)
                 (languageMap rs))
     = 100 * of_nat (length (filter (\<lambda>r. truthy_str (language r)) rs)) / of_nat (length rs)"
proof -
  have "sum_list (map (\<lambda>e. of_int (int (length (snd e))) * 100 / of_int (int (length rs)) :: rat) m)
        = 100 * of_nat (entries_total m) / of_nat (length rs)" for m
    by (induction m) (auto simp: entries_total_def add_divide_distrib distrib_right)
  then show ?thesis by (simp add: entries_total_languageMap)
qed

text \<open>No language counts more repositories than there are.\<close>

lemma entry_le_total:
  assumes "e \<in> set (languageMap rs)"
  shows "length (snd e) \<le> length rs"
proof -
  have "length (snd e) \<le> entries_total (languageMap rs)"
    unfolding entries_total_def using assms by (intro member_le_sum_list) auto
  also have "\<dots> \<le> length rs"
    by (simp add: entries_total_languageMap)
  finally show ?thesis .
qed

text \<open>
  The percentages add up to the share of repositories that have a language, up to the
  error of each entry of the breakdown.
\<close>

lemma percentages_sum_general:
  assumes "rs \<noteq> []"
  shows "\<bar>sum_list (map ls_percentage (languages_of rs))
           - 100 * of_nat (length (filter (\<lambda>r. truthy_str (language r)) rs)) / of_nat (length rs)\<bar>
         \<le> of_nat (card (present_languages rs)) * (1 / 200 + 403 / 2 ^ 53)"
proof -
  have n: "0 < int (length rs)" using assms by simp
  have "sum_list (map ls_percentage (languages_of rs))
        = sum_list (map (\<lambda>e. calculatePercentage (int (length (snd e))) (int (length rs)))
                        (languageMap rs))"
    by (simp add: languages_of_def sum_list_js_sort comp_def language_entry_def)
  moreover have "\<bar>sum_list (map (\<lambda>e. calculatePercentage (int (length (snd e))) (int (length rs)))
                            (languageMap rs))
      - sum_list (map (\<lambda>e. of_int (int (length (snd e))) * 100 / of_int (int (length rs)) :: rat)
                      (languageMap rs))\<bar>
      \<le> of_nat (length (languageMap rs)) * (1 / 200 + 403 / 2 ^ 53)"
  proof (rule sum_abs_bound)
    fix e assume "e \<in> set (languageMap rs)"
    then have "int (length (snd e)) \<le> int (length rs)"
      using entry_le_total by auto
    then show "\<bar>calculatePercentage (int (length (snd e))) (int (length rs))
                 - of_int (int (length (snd e))) * 100 / of_int (int (length rs))\<bar>
               \<le> 1 / 200 + 403 / 2 ^ 53"
      using n by (intro percentage_error) simp_all
  qed
  ultimately show ?thesis
    using exact_sum [of rs] by (simp add: length_languageMap)
qed

lemma sum_percentages:
  "sum_list (map ls_percentage (languages_of rs))
     = sum_list (map (\<lambda>c. calculatePercentage c (int (length rs)))
                     (map (\<lambda>e. int (length (snd e))) (languageMap rs)))"
  by (simp add: languages_of_def sum_list_js_sort comp_def language_entry_def)

lemma polyglot_counts:
  "map (\<lambda>e. int (length (snd e))) (languageMap example_polyglot) = replicate 31 1"
  by code_simp

lemma polyglot_length: "length example_polyglot = 31"
  by (simp add: example_polyglot_def)

text \<open>One repository in 31 is 3.23 percent; the double is not exactly 3.23.\<close>

lemma polyglot_percentage:
  "calculatePercentage 1 31 = 7273313398203351 / 2251799813685248"
  by code_simp

lemma polyglot_sum:
  "sum_list (map ls_percentage (languages_of example_polyglot))
     = 31 * (7273313398203351 / 2251799813685248)"
  unfolding sum_percentages polyglot_counts polyglot_length
  by (simp add: polyglot_percentage sum_list_replicate)

text \<open>
  C1 (as amended). When there is no repository the language breakdown is empty. When there
  is at least one, the percentages of the breakdown add up to 100 times the share of the
  repositories that have a non-empty primary language, within \<open>0.005 + 403 * 2 ^ -53\<close> for
  each entry of the breakdown; so when every repository has a non-empty primary language
  and at most 19 distinct languages occur, they add up to 100 within 0.1. The sum is the
  exact sum of the values of the doubles.
\<close>

theorem language_percentages_sum:
  "(total_repositories (compute_stats eng repos) = 0 \<longrightarrow> languages (compute_stats eng repos) = []) \<and>
   (0 < total_repositories (compute_stats eng repos) \<longrightarrow>
      \<bar>sum_list (map ls_percentage (languages (compute_stats eng repos)))
         - 100 * of_nat (length (filter (\<lambda>r. truthy_str (language r)) repos))
             / of_int (total_repositories (compute_stats eng repos))\<bar>
        \<le> of_nat (card (present_languages repos)) * (1 / 200 + 403 / 2 ^ 53)) \<and>
   (0 < total_repositories (compute_stats eng repos) \<longrightarrow>
    (\<forall>r \<in> set repos. truthy_str (language r)) \<longrightarrow>
    card (present_languages repos) \<le> 19 \<longrightarrow>
    \<bar>sum_list (map ls_percentage (languages (compute_stats eng repos))) - 100\<bar> \<le> 1 / 10)"
proof (intro conjI impI)
  assume "total_repositories (compute_stats eng repos) = 0"
  then have "repos = []" by (simp add: compute_stats_def)
  then show "languages (compute_stats eng repos) = []"
    by (simp add: compute_stats_def languages_of_def languageMap_def js_sort_def)
next
  assume pos: "0 < total_repositories (compute_stats eng repos)"
  then have ne: "repos \<noteq> []" by (auto simp: compute_stats_def)
  show "\<bar>sum_list (map ls_percentage (languages (compute_stats eng repos)))
         - 100 * of_nat (length (filter (\<lambda>r. truthy_str (language r)) repos))
             / of_int (total_repositories (compute_stats eng repos))\<bar>
        \<le> of_nat (card (present_languages repos)) * (1 / 200 + 403 / 2 ^ 53)"
    using percentages_sum_general [OF ne] by (simp add: compute_stats_def)
next
  assume pos: "0 < total_repositories (compute_stats eng repos)"
    and all: "\<forall>r \<in> set repos. truthy_str (language r)"
    and few: "card (present_languages repos) \<le> 19"
  from pos have ne: "repos \<noteq> []" by (auto simp: compute_stats_def)
  have "filter (\<lambda>r. truthy_str (language r)) repos = repos"
    using all by (simp add: filter_id_conv)
  then have "100 * of_nat (length (filter (\<lambda>r. truthy_str (language r)) repos))
               / of_nat (length repos) = (100::rat)"
    using ne by simp
  then have "\<bar>sum_list (map ls_percentage (languages_of repos)) - 100\<bar>
        \<le> of_nat (card (present_languages repos)) * (1 / 200 + 403 / 2 ^ 53)"
    using percentages_sum_general [OF ne] by simp
  also have "\<dots> \<le> 19 * (1 / 200 + 403 / 2 ^ 53)"
    using few by (intro mult_right_mono) simp_all
  also have "\<dots> \<le> 1 / 10" by simp
  finally show "\<bar>sum_list (map ls_percentage (languages (compute_stats eng repos))) - 100\<bar> \<le> 1 / 10"
    by (simp add: compute_stats_def)
qed

theorem language_percentages_sum_witness:
  "total_repositories (compute_stats example_engine []) = 0 \<and> languages (compute_stats example_engine []) = [] \<and>
   0 < total_repositories (compute_stats example_engine
         [example_repo ''a'' (Some ''Go'') 5, example_repo ''b'' (Some ''Python'') 0,
          example_repo ''c'' (Some ''Go'') 10]) \<and>
   \<bar>sum_list (map ls_percentage (languages (compute_stats example_engine
         [example_repo ''a'' (Some ''Go'') 5, example_repo ''b'' (Some ''Python'') 0,
          example_repo ''c'' (Some ''Go'') 10]))) - 100\<bar> \<le> 1 / 10"
proof -
  let ?rs = "[example_repo ''a'' (Some ''Go'') 5, example_repo ''b'' (Some ''Python'') 0,
              example_repo ''c'' (Some ''Go'') 10]"
  have z: "total_repositories (compute_stats example_engine []) = 0"
    by (simp add: compute_stats_def)
  have p: "0 < total_repositories (compute_stats example_engine ?rs)"
    by (simp add: compute_stats_def)
  have a: "\<forall>r \<in> set ?rs. truthy_str (language r)"
    by (simp add: example_repo_def truthy_str_def)
  have c: "card (present_languages ?rs) \<le> 19"
    by code_simp
  show ?thesis
    using z p a c language_percentages_sum [of example_engine "[]"]
          language_percentages_sum [of example_engine ?rs]
    by blast
qed

text \<open>
  The claim as stated fails in two ways. A repository without a primary language counts
  in the total and has no entry in the breakdown, so the percentages of a profile that
  holds only such a repository add up to 0. And rounding alone leaves the tolerance once
  there are many languages: 31 repositories in 31 languages give 31 entries of 3.23
  percent, which add up to 100.13.
\<close>

theorem language_percentages_counterexample:
  "0 < total_repositories (compute_stats example_engine [example_repo ''notes'' None 3]) \<and>
   \<not> \<bar>sum_list (map ls_percentage
            (languages (compute_stats example_engine [example_repo ''notes'' None 3]))) - 100\<bar> \<le> 1 / 10 \<and>
   0 < total_repositories (compute_stats example_engine example_polyglot) \<and>
   \<not> \<bar>sum_list (map ls_percentage
            (languages (compute_stats example_engine example_polyglot))) - 100\<bar> \<le> 1 / 10"
proof -
  have "languages_of [example_repo ''notes'' None 3] = []"
    by (simp add: languages_of_def languageMap_def languageMap_step_def example_repo_def
                  js_sort_def)
  then show ?thesis
    by (simp add: compute_stats_def polyglot_sum polyglot_length)
qed

section \<open>Most starred and most forked\<close>

lemma Max_Cons:
  fixes field :: "'a \<Rightarrow> int"
  shows "Max (field ` set (x # xs)) = (if xs = [] then field x else max (field x) (Max (field ` set xs)))"
  by (simp)

lemma Max_ge_elem:
  fixes field :: "'a \<Rightarrow> int"
  shows "x \<in> set xs \<Longrightarrow> field x \<le> Max (field ` set xs)"
  by simp

lemma foldl_most_step:
  "foldl (most_step field) (Some m) rs
     = List.find (\<lambda>r. field r = Max (field ` set (m # rs))) (m # rs)"
proof (induction rs arbitrary: m)
  case Nil
  then show ?case by simp
next
  case (Cons r rs)
  let ?M = "Max (field ` set (m # r # rs))"
  show ?case
  proof (cases "field r > field m")
    case True
    then have step: "most_step field (Some m) r = Some r"
      by (simp add: most_step_def or_zero_def)
    define A where "A = Max (field ` set (r # rs))"
    have 1: "field r \<le> A"
      unfolding A_def by (rule Max_ge_elem) simp
    have 2: "?M = max (field m) A"
      unfolding A_def using Max_Cons [of field m "r # rs"] by simp
    have M: "?M = A" and "field m \<noteq> ?M"
      using 1 2 True by (simp_all add: max_def)
    then show ?thesis using Cons.IH [of r] step by (simp add: A_def)
  next
    case False
    then have step: "most_step field (Some m) r = Some m"
      by (simp add: most_step_def or_zero_def)
    have M: "?M = Max (field ` set (m # rs))"
      using False by (cases "rs = []") (auto simp: max_def)
    have "field m \<le> ?M"
      by (rule Max_ge_elem) simp
    then have "field m \<noteq> ?M \<Longrightarrow> field r \<noteq> ?M"
      using False by linarith
    then show ?thesis using Cons.IH [of m] step M by auto
  qed
qed

lemma most_by_find:
  "most_by field repos
     = (case repos of [] \<Rightarrow> None
        | _ # _ \<Rightarrow> List.find (\<lambda>r. field r = Max (field ` set repos)) repos)"
proof (cases repos)
  case Nil
  then show ?thesis by (simp add: most_by_def)
next
  case (Cons r rs)
  have "most_step field (Some r) r = Some r"
    by (simp add: most_step_def)
  then have "most_by field repos = foldl (most_step field) (Some r) rs"
    using Cons by (simp add: most_by_def)
  then show ?thesis
    using Cons foldl_most_step [of field r rs] by simp
qed


text \<open>
  C8. For the empty list \<open>most_starred_repo\<close> and \<open>most_forked_repo\<close> are \<open>null\<close>; for a
  non-empty list each is the earliest repository, in list order, whose star count
  (respectively fork count) equals the maximum over the list.
\<close>

theorem most_starred_forked_earliest_max:
  "most_starred_repo (compute_stats eng []) = None \<and>
   most_forked_repo (compute_stats eng []) = None \<and>
   (repos \<noteq> [] \<longrightarrow>
      most_starred_repo (compute_stats eng repos)
        = List.find (\<lambda>r. stars r = Max (stars ` set repos)) repos \<and>
      most_forked_repo (compute_stats eng repos)
        = List.find (\<lambda>r. forks r = Max (forks ` set repos)) repos)"
  by (cases repos) (simp_all add: compute_stats_def most_by_find)

theorem most_starred_forked_earliest_max_witness:
  "[example_repo ''a'' None 5, example_repo ''b'' None 10, example_repo ''c'' None 10] \<noteq> [] \<and>
   most_starred_repo (compute_stats example_engine
     [example_repo ''a'' None 5, example_repo ''b'' None 10, example_repo ''c'' None 10])
     = Some (example_repo ''b'' None 10) \<and>
   most_forked_repo (compute_stats example_engine
     [example_repo ''a'' None 5, example_repo ''b'' None 10, example_repo ''c'' None 10])
     = Some (example_repo ''a'' None 5)"
proof -
  let ?rs = "[example_repo ''a'' None 5, example_repo ''b'' None 10, example_repo ''c'' None 10]"
  have s: "List.find (\<lambda>r. stars r = Max (stars ` set ?rs)) ?rs = Some (example_repo ''b'' None 10)"
    by (simp add: example_repo_def)
  have f: "List.find (\<lambda>r. forks r = Max (forks ` set ?rs)) ?rs = Some (example_repo ''a'' None 5)"
    by (simp add: example_repo_def)
  show ?thesis
    using most_starred_forked_earliest_max [of example_engine ?rs] s f by simp
qed

section \<open>Contribution streak\<close>

lemma indexOf_ge: "- 1 \<le> indexOf xs x"
  by (induction xs) (auto simp: Let_def)

lemma filter_enumerate_shift:
  "map snd (filter (\<lambda>(i, d). P (int i - int n) d) (enumerate n xs))
   = map snd (filter (\<lambda>(i, d). P (int i) d) (enumerate 0 xs))"
proof (induction xs arbitrary: n P)
  case Nil
  then show ?case by simp
next
  case (Cons x xs)
  have a: "map snd (filter (\<lambda>(i, d). P (int i - int n) d) (enumerate (Suc n) xs))
        = map snd (filter (\<lambda>(i, d). P (int i - int (Suc n) + 1) d) (enumerate (Suc n) xs))"
    by (simp add: algebra_simps)
  have b: "\<dots> = map snd (filter (\<lambda>(i, d). P (int i + 1) d) (enumerate 0 xs))"
    using Cons.IH [of "\<lambda>i d. P (i + 1) d" "Suc n"] by simp
  have c: "map snd (filter (\<lambda>(i, d). P (int i) d) (enumerate (Suc 0) xs))
        = map snd (filter (\<lambda>(i, d). P (int i - int (Suc 0) + 1) d) (enumerate (Suc 0) xs))"
    by (simp add: algebra_simps)
  have d: "\<dots> = map snd (filter (\<lambda>(i, d). P (int i + 1) d) (enumerate 0 xs))"
    using Cons.IH [of "\<lambda>i d. P (i + 1) d" "Suc 0"] by simp
  show ?case using a b c d by simp
qed

lemma first_occurrences_Cons:
  "first_occurrences (x # xs) = x # filter (\<lambda>y. y \<noteq> x) (first_occurrences xs)"
proof -
  have "map snd (filter (\<lambda>(i, d). indexOf (x # xs) d = int i) (enumerate (Suc 0) xs))
      = map snd (filter (\<lambda>(i, d). indexOf (x # xs) d = (int i - int (Suc 0)) + 1) (enumerate (Suc 0) xs))"
    by simp
  also have "\<dots> = map snd (filter (\<lambda>(i, d). indexOf (x # xs) d = int i + 1) (enumerate 0 xs))"
    using filter_enumerate_shift [of "\<lambda>i d. indexOf (x # xs) d = i + 1" "Suc 0" xs] by simp
  also have "\<dots> = map snd (filter (\<lambda>(i, d). d \<noteq> x \<and> indexOf xs d = int i) (enumerate 0 xs))"
  proof -
    have "(indexOf (x # xs) d = int i + 1) = (d \<noteq> x \<and> indexOf xs d = int i)" for d i
      using indexOf_ge [of xs d] by (auto simp: Let_def)
    then show ?thesis by simp
  qed
  also have "\<dots> = filter (\<lambda>y. y \<noteq> x) (map snd (filter (\<lambda>(i, d). indexOf xs d = int i) (enumerate 0 xs)))"
    by (simp add: filter_map comp_def case_prod_unfold conj_commute)
  finally show ?thesis by (simp add: first_occurrences_def)
qed

lemma first_occurrences_Nil: "first_occurrences [] = []"
  by (simp add: first_occurrences_def)

lemma set_first_occurrences: "set (first_occurrences xs) = set xs"
  by (induction xs) (auto simp: first_occurrences_Cons first_occurrences_Nil)

lemma distinct_first_occurrences: "distinct (first_occurrences xs)"
  by (induction xs) (auto simp: first_occurrences_Cons first_occurrences_Nil)

lemma distinct_js_sort: "distinct (js_sort cmp xs) = distinct xs"
  by (metis mset_js_sort distinct_count_atmost_1 set_mset_mset)

lemma day_diff: "(day_time a - day_time b) div ms_per_day = a - b"
proof -
  have "day_time a - day_time b = (a - b) * ms_per_day"
    by (simp add: day_time_def algebra_simps)
  then show ?thesis by (simp add: ms_per_day_def)
qed

lemma day_cmp: "(day_time b \<le> day_time a) = (b \<le> a)"
  by (simp add: day_time_def ms_per_day_def)

lemma sorted_insort_desc:
  "sorted_wrt (\<ge>) xs \<Longrightarrow> sorted_wrt (\<ge>) (insort_cmp (\<lambda>a b. day_time b - day_time a) x xs)"
  by (induction xs) (auto simp: day_cmp set_insort_cmp)

lemma sorted_js_sort_desc: "sorted_wrt (\<ge>) (js_sort (\<lambda>a b. day_time b - day_time a) xs)"
  unfolding js_sort_def by (induction xs) (auto simp: sorted_insort_desc)

lemma sort_days_desc:
  assumes "distinct xs"
  shows "js_sort (\<lambda>a b. day_time b - day_time a) xs = rev (sorted_list_of_set (set xs))"
proof -
  let ?ys = "js_sort (\<lambda>a b. day_time b - day_time a) xs"
  have "sorted (rev ?ys)"
    using sorted_js_sort_desc [of xs] by (simp add: sorted_wrt_rev)
  moreover have "distinct (rev ?ys)"
    using assms by (simp add: distinct_js_sort)
  ultimately have "sorted_list_of_set (set (rev ?ys)) = rev ?ys"
    by (rule sorted_list_of_set.idem_if_sorted_distinct)
  then have "rev (sorted_list_of_set (set xs)) = rev (rev ?ys)"
    by (simp add: set_js_sort)
  then show ?thesis by simp
qed

lemma streak_loop_run_length:
  "sorted_wrt (>) ds \<Longrightarrow> ds \<noteq> [] \<Longrightarrow> streak_loop ds s = s - 1 + run_length ds"
proof (induction ds s rule: streak_loop.induct)
  case (1 cur nxt rest streak)
  have gap: "cur - nxt \<ge> 1" using "1.prems" by simp
  have tl: "sorted_wrt (>) (nxt # rest)" using "1.prems" by simp
  show ?case
  proof (cases "cur - nxt = 1")
    case True
    then show ?thesis using "1.IH"(1) tl by (simp add: day_diff)
  next
    case False
    then show ?thesis using gap by (simp add: day_diff)
  qed
qed simp_all

lemma run_length_pos: "ds \<noteq> [] \<Longrightarrow> 1 \<le> run_length ds"
  by (induction ds rule: run_length.induct) auto

lemma try_map_valid:
  "\<forall>c \<in> set cs. date c \<noteq> None \<Longrightarrow>
   try_map (\<lambda>c. iso_day (date c)) cs = Inr (map (\<lambda>c. the (date c) div ms_per_day) cs)"
  by (induction cs) (auto simp: iso_day_def)

lemma calculateStreak_valid:
  assumes "\<forall>c \<in> set cs. date c \<noteq> None" "cs \<noteq> []"
  shows "calculateStreak cs = Inr (run_length (descending_days (commit_days cs)))"
proof -
  let ?ds = "first_occurrences (commit_days cs)"
  have eq: "js_sort (\<lambda>a b. day_time b - day_time a) ?ds = descending_days (commit_days cs)"
    by (simp add: sort_days_desc distinct_first_occurrences set_first_occurrences descending_days_def)
  have "sorted_wrt (>) (descending_days (commit_days cs))"
    unfolding descending_days_def
    by (simp add: sorted_wrt_rev strict_sorted_iff [symmetric] flip: rev_map)
  moreover have "descending_days (commit_days cs) \<noteq> []"
    using assms(2) by (simp add: descending_days_def commit_days_def)
  ultimately have "streak_loop (descending_days (commit_days cs)) 1
      = run_length (descending_days (commit_days cs))"
    by (simp add: streak_loop_run_length)
  then show ?thesis
    using assms eq by (simp add: calculateStreak_def try_map_valid commit_days_def)
qed


lemma descending_three:
  assumes "set ds = {D, D - 1, D - 2}"
  shows "descending_days ds = [D, D - 1, D - 2]"
proof -
  have "sorted_list_of_set (set [D - 2, D - 1, D]) = [D - 2, D - 1, D]"
    by (rule sorted_list_of_set.idem_if_sorted_distinct) simp_all
  moreover have "set ds = set [D - 2, D - 1, D]"
    using assms by auto
  ultimately show ?thesis by (simp add: descending_days_def)
qed

lemma descending_two:
  assumes "set ds = {D, D - 2}"
  shows "descending_days ds = [D, D - 2]"
proof -
  have "sorted_list_of_set (set [D - 2, D]) = [D - 2, D]"
    by (rule sorted_list_of_set.idem_if_sorted_distinct) simp_all
  moreover have "set ds = set [D - 2, D]"
    using assms by auto
  ultimately show ?thesis by (simp add: descending_days_def)
qed

text \<open>
  C2 (as amended). The streak of the empty sample is 0. For a non-empty sample in which
  every commit date is a valid timestamp, the streak is the length of the leading run of
  consecutive days among the distinct days in descending order, which is at least 1; it
  is 3 when the days of the sample are \<open>D\<close>, \<open>D - 1\<close>, \<open>D - 2\<close> and 1 when they are \<open>D\<close>
  and \<open>D - 2\<close>.
\<close>

theorem streak_of_commit_sample:
  "calculateStreak [] = Inr 0 \<and>
   ((\<forall>c \<in> set cs. date c \<noteq> None) \<and> cs \<noteq> [] \<longrightarrow>
      calculateStreak cs = Inr (run_length (descending_days (commit_days cs))) \<and>
      1 \<le> run_length (descending_days (commit_days cs))) \<and>
   ((\<forall>c \<in> set cs. date c \<noteq> None) \<and> set (commit_days cs) = {D, D - 1, D - 2} \<longrightarrow>
      calculateStreak cs = Inr 3) \<and>
   ((\<forall>c \<in> set cs. date c \<noteq> None) \<and> set (commit_days cs) = {D, D - 2} \<longrightarrow>
      calculateStreak cs = Inr 1)"
proof (intro conjI impI)
  show "calculateStreak [] = Inr 0"
    by (simp add: calculateStreak_def)
next
  assume a: "(\<forall>c \<in> set cs. date c \<noteq> None) \<and> cs \<noteq> []"
  then show "calculateStreak cs = Inr (run_length (descending_days (commit_days cs)))"
    by (simp add: calculateStreak_valid)
  have "descending_days (commit_days cs) \<noteq> []"
    using a by (simp add: descending_days_def commit_days_def)
  then show "1 \<le> run_length (descending_days (commit_days cs))"
    by (rule run_length_pos)
next
  assume a: "(\<forall>c \<in> set cs. date c \<noteq> None) \<and> set (commit_days cs) = {D, D - 1, D - 2}"
  then have "cs \<noteq> []" by (auto simp: commit_days_def)
  then show "calculateStreak cs = Inr 3"
    using a by (simp add: calculateStreak_valid descending_three)
next
  assume a: "(\<forall>c \<in> set cs. date c \<noteq> None) \<and> set (commit_days cs) = {D, D - 2}"
  then have "cs \<noteq> []" by (auto simp: commit_days_def)
  then show "calculateStreak cs = Inr 1"
    using a by (simp add: calculateStreak_valid descending_two)
qed

theorem streak_of_commit_sample_witness:
  "calculateStreak
     [example_commit ''r'' (Some (3 * 86400000 + 5)), example_commit ''q'' (Some (2 * 86400000)),
      example_commit ''r'' (Some (3 * 86400000 + 900)), example_commit ''r'' (Some 86400001)]
     = Inr 3 \<and>
   calculateStreak
     [example_commit ''r'' (Some (3 * 86400000 + 5)), example_commit ''r'' (Some 86400001)]
     = Inr 1"
proof -
  let ?a = "[example_commit ''r'' (Some (3 * 86400000 + 5)), example_commit ''q'' (Some (2 * 86400000)),
      example_commit ''r'' (Some (3 * 86400000 + 900)), example_commit ''r'' (Some 86400001)]"
  let ?b = "[example_commit ''r'' (Some (3 * 86400000 + 5)), example_commit ''r'' (Some 86400001)]"
  have va: "\<forall>c \<in> set ?a. date c \<noteq> None" and vb: "\<forall>c \<in> set ?b. date c \<noteq> None"
    by (simp_all add: example_commit_def)
  have da: "set (commit_days ?a) = {3, 3 - 1, 3 - 2}"
    by (auto simp: commit_days_def example_commit_def ms_per_day_def)
  have db: "set (commit_days ?b) = {3, 3 - 2}"
    by (auto simp: commit_days_def example_commit_def ms_per_day_def)
  show ?thesis
    using streak_of_commit_sample [of ?a 3] streak_of_commit_sample [of ?b 3] va vb da db by blast
qed

text \<open>
  The claim as stated fails on a sample that holds a commit without a usable date (the
  client stores \<open>''\<close> as the date of a commit that has no author entry): the computation
  raises instead of returning a streak.
\<close>

theorem streak_of_commit_sample_counterexample:
  "calculateStreak [example_commit ''r'' None] = Inl (Error ''Invalid time value'')"
  by (simp add: calculateStreak_def example_commit_def iso_day_def)

section \<open>Search filter\<close>

lemma starts_with_iff: "starts_with s sub \<longleftrightarrow> (\<exists>q. s = sub @ q)"
  by (induction s sub rule: starts_with.induct) auto

text \<open>\<open>str_includes\<close> is the substring test.\<close>

lemma str_includes_iff: "str_includes s sub \<longleftrightarrow> (\<exists>p q. s = p @ sub @ q)"
proof (induction s)
  case Nil
  then show ?case by auto
next
  case (Cons d ds)
  show ?case
  proof
    assume "str_includes (d # ds) sub"
    then consider "starts_with (d # ds) sub" | "str_includes ds sub" by auto
    then show "\<exists>p q. d # ds = p @ sub @ q"
    proof cases
      case 1
      then obtain q where "d # ds = sub @ q" by (auto simp: starts_with_iff)
      then have "d # ds = [] @ sub @ q" by simp
      then show ?thesis by blast
    next
      case 2
      then obtain p q where "ds = p @ sub @ q" using Cons.IH by auto
      then have "d # ds = (d # p) @ sub @ q" by simp
      then show ?thesis by blast
    qed
  next
    assume "\<exists>p q. d # ds = p @ sub @ q"
    then obtain p q where pq: "d # ds = p @ sub @ q" by auto
    show "str_includes (d # ds) sub"
    proof (cases p)
      case Nil
      then have "starts_with (d # ds) sub" using pq by (auto simp: starts_with_iff)
      then show ?thesis by simp
    next
      case (Cons a p')
      then have "ds = p' @ sub @ q" using pq by simp
      then have "str_includes ds sub" using Cons.IH by auto
      then show ?thesis by simp
    qed
  qed
qed





section \<open>Cache\<close>

text \<open>A sweep does not change what a read at the same instant returns.\<close>

lemma read_after_sweep: "fst (nc_get t k (nc_sweep t c)) = fst (nc_get t k c)"
  by (simp add: nc_get_def nc_sweep_def split: option.splits)

text \<open>
  C6. With a positive time-to-live, a value read back at the instant it was stored, and at
  any instant before the time-to-live has elapsed, is the value stored; once the
  time-to-live has elapsed the read is a miss. Whatever the cache holds, a read never
  returns the payload of an expired entry.
\<close>

theorem cache_round_trip:
  "(0 < config_ttl \<longrightarrow>
      fst (cache_get t0 k (cache_set config_ttl t0 k v None c)) = Some v) \<and>
   (t1 - t0 < config_ttl * 1000 \<longrightarrow>
      fst (cache_get t1 k (cache_set config_ttl t0 k v None c)) = Some v) \<and>
   (t1 - t0 \<ge> config_ttl * 1000 \<longrightarrow>
      fst (cache_get t1 k (cache_set config_ttl t0 k v None c)) = None) \<and>
   (fst (cache_get t1 k c) = Some v \<longrightarrow>
      (\<exists>en. c k = Some en \<and> payload en = v \<and> t1 - inserted en < ttl en * 1000))"
  by (auto simp: cache_get_def cache_set_def nc_get_def nc_set_def expired_def
           split: option.splits if_splits)

theorem cache_round_trip_witness:
  "fst (cache_get 5000 ''repos:octo:all''
          (cache_set 3600 5000 ''repos:octo:all'' (7::int) None (\<lambda>_. None))) = Some 7 \<and>
   fst (cache_get 3604999 ''repos:octo:all''
          (cache_set 3600 5000 ''repos:octo:all'' (7::int) None (\<lambda>_. None))) = Some 7 \<and>
   fst (cache_get 3605000 ''repos:octo:all''
          (cache_set 3600 5000 ''repos:octo:all'' (7::int) None (\<lambda>_. None))) = None \<and>
   (\<exists>en. cache_set 3600 5000 ''repos:octo:all'' (7::int) None (\<lambda>_. None) ''repos:octo:all''
           = Some en \<and>
         payload en = 7 \<and> 6000 - inserted en < ttl en * 1000)"
proof -
  let ?c = "cache_set 3600 5000 ''repos:octo:all'' (7::int) None (\<lambda>_. None)"
  have h: "fst (cache_get 6000 ''repos:octo:all'' ?c) = Some 7"
    by (simp add: cache_get_def cache_set_def nc_get_def nc_set_def expired_def)
  show ?thesis
    using cache_round_trip [of 3600 5000 "''repos:octo:all''" "7::int" "\<lambda>_. None" 3604999]
          cache_round_trip [of 3600 5000 "''repos:octo:all''" "7::int" "\<lambda>_. None" 3605000]
          cache_round_trip [of 3600 6000 "''repos:octo:all''" "7::int" ?c 6000] h
    by simp
qed

section \<open>Termination of the client methods\<close>

lemma returns_return: "always_returns (io_return x)"
  by (simp add: always_returns_def io_return_def)

lemma returns_throw: "always_returns (io_throw x)"
  by (simp add: always_returns_def io_throw_def)

lemma returns_lift: "always_returns (io_lift x)"
  by (simp add: always_returns_def io_lift_def)

lemma returns_request: "always_returns (request_io req r)"
  by (simp add: always_returns_def request_io_def)

lemma returns_cache_get: "always_returns (cache_get_io sel upd e k)"
  by (simp add: always_returns_def cache_get_io_def)

lemma returns_cache_set: "always_returns (cache_set_io upd e k v)"
  by (simp add: always_returns_def cache_set_io_def)

lemma returns_array_new: "always_returns (array_new xs)"
  by (simp add: always_returns_def array_new_def)

lemma returns_array_get: "always_returns (array_get r)"
  by (simp add: always_returns_def array_get_def)

lemma returns_array_set: "always_returns (array_set r xs)"
  by (simp add: always_returns_def array_set_def)

lemma returns_bind:
  "always_returns m \<Longrightarrow> (\<And>x. always_returns (f x)) \<Longrightarrow> always_returns (io_bind m f)"
  by (auto simp: always_returns_def io_bind_def split: option.splits sum.splits prod.splits)

lemma returns_catch:
  "always_returns m \<Longrightarrow> (\<And>x. always_returns (h x)) \<Longrightarrow> always_returns (io_catch m h)"
  by (auto simp: always_returns_def io_catch_def split: option.splits sum.splits prod.splits)

lemma returns_map: "(\<And>x. always_returns (f x)) \<Longrightarrow> always_returns (io_map f xs)"
  by (induction xs) (auto intro!: returns_bind returns_return)

lemmas returns_intros = returns_return returns_throw returns_lift returns_request
  returns_cache_get returns_cache_set returns_array_new returns_array_get returns_array_set
  returns_bind returns_catch returns_map

lemma fetch_pages_stop:
  "page_stops e p \<Longrightarrow> fetch_pages e p acc w \<noteq> None"
  by (subst fetch_pages.simps) (auto simp: page_stops_def split: sum.splits)

lemma fetch_pages_continue:
  "\<not> page_stops e p \<Longrightarrow>
   fetch_pages e p acc w
     = fetch_pages e (p + 1) (acc @ projr (listForUser e p))
         (w\<lparr> requests := requests w @ [ListForUser p] \<rparr>)"
  by (subst fetch_pages.simps) (auto simp: page_stops_def split: sum.splits)

lemma fetch_pages_returns_from:
  "page_stops e (p + n) \<Longrightarrow> fetch_pages e p acc w \<noteq> None"
proof (induction n arbitrary: p acc w)
  case 0
  then show ?case by (simp add: fetch_pages_stop)
next
  case (Suc n)
  show ?case
  proof (cases "page_stops e p")
    case True
    then show ?thesis by (rule fetch_pages_stop)
  next
    case False
    have "page_stops e (p + 1 + n)" using Suc.prems by simp
    then show ?thesis
      using Suc.IH [of "p + 1"] fetch_pages_continue [OF False] by simp
  qed
qed

lemma fetch_pages_returns: "listing_ends e \<Longrightarrow> always_returns (fetch_pages e (Suc 0) [])"
  unfolding listing_ends_def always_returns_def
  using fetch_pages_returns_from [of e "Suc 0"] by auto

lemma returns_listRepositories: "listing_ends e \<Longrightarrow> always_returns (listRepositories uc e)"
  unfolding listRepositories_def
  by (auto intro!: returns_intros fetch_pages_returns split: option.splits)

lemma returns_getRepositoryDetails: "always_returns (getRepositoryDetails n uc e)"
  unfolding getRepositoryDetails_def
  by (auto intro!: returns_intros split: option.splits)

lemma returns_getRepositoryReadme: "always_returns (getRepositoryReadme n uc e)"
  unfolding getRepositoryReadme_def
  by (auto intro!: returns_intros split: option.splits list.splits)

lemma returns_repo_commits: "always_returns (repo_commits e r)"
  unfolding repo_commits_def by (auto intro!: returns_intros)

lemma returns_getRecentCommits:
  "listing_ends e \<Longrightarrow> always_returns (getRecentCommits n l uc e)"
  unfolding getRecentCommits_def
  by (auto intro!: returns_intros returns_listRepositories returns_repo_commits
           split: option.splits list.splits)

lemma returns_getRepositoryStats:
  "listing_ends e \<Longrightarrow> always_returns (getRepositoryStats uc e)"
  unfolding getRepositoryStats_def
  by (auto intro!: returns_intros returns_listRepositories split: option.splits)

lemma returns_searchProjectsByTech:
  "listing_ends e \<Longrightarrow> always_returns (searchProjectsByTech f uc e)"
  unfolding searchProjectsByTech_def
  by (auto intro!: returns_intros returns_listRepositories split: option.splits)

lemma returns_getContributionActivity:
  "listing_ends e \<Longrightarrow> always_returns (getContributionActivity uc e)"
  unfolding getContributionActivity_def
  by (auto intro!: returns_intros returns_getRecentCommits split: option.splits)

text \<open>Against a remote that always answers with a full page the listing does not return.\<close>

lemma endless_fetch: "fetch_pages endless_env p acc w = None"
proof (rule ccontr)
  assume "fetch_pages endless_env p acc w \<noteq> None"
  then obtain y where y: "fetch_pages endless_env p acc w = Some y" by auto
  have "endless_env \<noteq> endless_env"
  proof (rule fetch_pages.raw_induct [where P = "\<lambda>e p acc w y. e \<noteq> endless_env", OF _ y])
    fix f e p acc w y
    assume IH: "\<And>e p acc w y. f e p acc w = Some y \<Longrightarrow> e \<noteq> endless_env"
      and body: "(case listForUser e p of
                  Inl err \<Rightarrow> Some (Inl err, w\<lparr> requests := requests w @ [ListForUser p] \<rparr>)
                | Inr response_data \<Rightarrow>
                    if length response_data = 100
                    then f e (p + 1) (acc @ response_data)
                           (w\<lparr> requests := requests w @ [ListForUser p] \<rparr>)
                    else Some (Inr (acc @ response_data),
                               w\<lparr> requests := requests w @ [ListForUser p] \<rparr>)) = Some y"
    show "e \<noteq> endless_env"
    proof
      assume e: "e = endless_env"
      then have "f e (p + 1) (acc @ replicate 100 (example_raw_repo ''r'' (Some ''Go'') 1))
                   (w\<lparr> requests := requests w @ [ListForUser p] \<rparr>) = Some y"
        using body by (simp add: endless_env_def)
      then show False using IH e by blast
    qed
  qed
  then show False by simp
qed

lemma endless_stats_tool: "getRepositoryStats_tool None endless_env empty_world = None"
  by (simp add: getRepositoryStats_tool_def getRepositoryStats_def listRepositories_def
                empty_world_def io_bind_def endless_fetch io_catch_def io_return_def
                cache_get_io_def cache_get_def nc_get_def default_true_def)

section \<open>Shared arrays\<close>

text \<open>
  A search to which no filter applies caches and returns the very array that the
  repository-list cache holds, after sorting it in place: the list that
  \<open>listRepositories\<close> serves from the cache afterwards is the sorted one.
\<close>

lemma search_shares_listing:
  assumes "\<not> filters_applied filters"
    and "searchProjectsByTech filters False e w = Some (Inr r, w')"
  shows "map_option payload (repos_cache w' ()) = Some r \<and>
         map_option payload (search_cache w' filters) = Some r \<and>
         (\<exists>repositories w1. fetch_pages e 1 [] w = Some (Inr repositories, w1) \<and>
            arrays w' r = sort_results (engine e) filters (map to_metadata repositories))"
  using assms
  by (auto simp: searchProjectsByTech_def listRepositories_def io_catch_def io_bind_def
                 io_return_def io_throw_def cache_set_io_def cache_set_def nc_set_def
                 array_new_def array_get_def array_set_def
           split: option.splits sum.splits prod.splits if_splits)

section \<open>Result envelopes\<close>

lemma wrapped_envelope:
  "envelope_for e code prefix (m w)
     (io_catch (io_bind m (\<lambda>x. io_return (success_result e uc (g x))))
        (\<lambda>err. io_return (failure_result e code (prefix @ getErrorMessage err))) w)"
  by (auto simp: envelope_for_def io_catch_def io_bind_def io_return_def
                 is_success_def is_failure_def success_result_def failure_result_def
                 createErrorResponse_def
           split: option.splits sum.splits prod.splits)

lemma wrapped_envelope_array:
  "envelope_for e code prefix (m w)
     (io_catch (io_bind (io_bind m array_get) (\<lambda>x. io_return (success_result e uc (g x))))
        (\<lambda>err. io_return (failure_result e code (prefix @ getErrorMessage err))) w)"
  by (auto simp: envelope_for_def io_catch_def io_bind_def io_return_def array_get_def
                 is_success_def is_failure_def success_result_def failure_result_def
                 createErrorResponse_def
           split: option.splits sum.splits prod.splits)

lemma readme_returns_string: "\<exists>s w'. getRepositoryReadme n uc e w = Some (Inr s, w')"
  by (auto simp: getRepositoryReadme_def io_catch_def io_bind_def io_return_def
                 cache_get_io_def cache_set_io_def request_io_def
           split: option.splits sum.splits prod.splits list.splits)

lemma details_envelope:
  assumes "rd_repository_name a = Some n" "n \<noteq> []"
  shows "envelope_for e ''GET_REPOSITORY_DETAILS_ERROR'' ''Failed to get repository details: ''
           (getRepositoryDetails n (default_true (rd_use_cache a)) e w)
           (getRepositoryDetails_tool a e w)"
proof -
  obtain c cs where n: "n = c # cs" using assms(2) by (cases n) auto
  show ?thesis
  proof (cases "getRepositoryDetails n (default_true (rd_use_cache a)) e w")
    case None
    then show ?thesis
      using assms(1) n
      by (simp add: envelope_for_def getRepositoryDetails_tool_def io_catch_def io_bind_def)
  next
    case (Some r)
    obtain x w1 where r: "r = (x, w1)" by (cases r)
    show ?thesis
    proof (cases x)
      case (Inl err)
      then show ?thesis
        using assms(1) n Some r
        by (simp add: envelope_for_def getRepositoryDetails_tool_def io_catch_def io_bind_def
                      io_return_def is_failure_def failure_result_def createErrorResponse_def)
    next
      case (Inr repo)
      obtain s w2 where
        "getRepositoryReadme n (default_true (rd_use_cache a)) e w1 = Some (Inr s, w2)"
        using readme_returns_string by blast
      then show ?thesis
        using assms(1) n Some r Inr
        by (simp add: envelope_for_def getRepositoryDetails_tool_def io_catch_def io_bind_def
                      io_return_def is_success_def success_result_def)
    qed
  qed
qed

lemma details_name_required:
  assumes "\<not> truthy_str (rd_repository_name a)"
  shows "envelope_for e ''GET_REPOSITORY_DETAILS_ERROR'' ''Failed to get repository details: ''
           (io_throw (Error ''repository_name is required'') w
              :: ((thrown + RepositoryDetailsResponse) \<times> world) option)
           (getRepositoryDetails_tool a e w)"
  using assms
  by (auto simp: envelope_for_def getRepositoryDetails_tool_def io_catch_def io_throw_def
                 io_return_def is_failure_def failure_result_def createErrorResponse_def
                 truthy_str_def getErrorMessage_def
           split: option.splits list.splits)

lemma envelope_success:
  assumes "envelope_for e code prefix inner outer" "inner = Some (Inr v, w1)"
  shows "\<exists>res w2. outer = Some (Inr res, w2) \<and> is_success e res"
  using assms
  by (auto simp: envelope_for_def split: option.splits sum.splits prod.splits)

lemma envelope_failure:
  assumes "envelope_for e code prefix inner outer" "inner = Some (Inl err, w1)"
  shows "\<exists>res w2. outer = Some (Inr res, w2) \<and>
           is_failure e code (prefix @ getErrorMessage err) res"
  using assms
  by (auto simp: envelope_for_def split: option.splits sum.splits prod.splits)

lemma returns_tool:
  "always_returns m \<Longrightarrow>
   io_catch (io_bind m (\<lambda>x. io_return (ok x))) (\<lambda>err. io_return (bad err)) w \<noteq> None"
  by (auto simp: always_returns_def io_catch_def io_bind_def io_return_def
           split: option.splits sum.splits prod.splits)

lemma returns_details_tool: "getRepositoryDetails_tool args e w \<noteq> None"
proof -
  have "always_returns (getRepositoryDetails_tool args e)"
    unfolding getRepositoryDetails_tool_def
    by (auto intro!: returns_intros returns_getRepositoryDetails returns_getRepositoryReadme
             split: option.splits list.splits)
  then show ?thesis by (simp add: always_returns_def)
qed

text \<open>
  C3 (as amended). Each of the six tools turns the outcome of the client call it wraps
  into an envelope and lets no exception escape: when the call returns, the tool returns
  \<open>success = true\<close> with a data payload and the timestamp; when the call raises, the tool
  returns \<open>success = false\<close> with its error code, its prefix followed by the message of the
  error, and the timestamp; \<open>get_repository_details\<close> without a repository name returns
  the failure envelope for \<open>repository_name is required\<close>. \<open>get_repository_details\<close> always
  returns; the other five return whenever the listing of repositories ends, that is, when
  some page of the listing fails or is not full.
\<close>

theorem tools_return_envelope:
  "envelope_for e ''LIST_REPOSITORIES_ERROR'' ''Failed to list repositories: ''
     (listRepositories (default_true (lr_use_cache a1)) e w)
     (listRepositories_tool a1 e w) \<and>
   (rd_repository_name a2 = Some n \<and> n \<noteq> [] \<longrightarrow>
      envelope_for e ''GET_REPOSITORY_DETAILS_ERROR'' ''Failed to get repository details: ''
        (getRepositoryDetails n (default_true (rd_use_cache a2)) e w)
        (getRepositoryDetails_tool a2 e w)) \<and>
   (\<not> truthy_str (rd_repository_name a2) \<longrightarrow>
      envelope_for e ''GET_REPOSITORY_DETAILS_ERROR'' ''Failed to get repository details: ''
        (io_throw (Error ''repository_name is required'') w
           :: ((thrown + RepositoryDetailsResponse) \<times> world) option)
        (getRepositoryDetails_tool a2 e w)) \<and>
   envelope_for e ''GET_RECENT_COMMITS_ERROR'' ''Failed to get recent commits: ''
     (getRecentCommits (rc_repository_name a3) (case rc_limit a3 of None \<Rightarrow> 50 | Some l \<Rightarrow> l)
        (default_true (rc_use_cache a3)) e w)
     (getRecentCommits_tool a3 e w) \<and>
   envelope_for e ''GET_REPOSITORY_STATS_ERROR'' ''Failed to get repository stats: ''
     (getRepositoryStats (default_true u4) e w)
     (getRepositoryStats_tool u4 e w) \<and>
   envelope_for e ''SEARCH_PROJECTS_ERROR'' ''Failed to search projects: ''
     (searchProjectsByTech f5 (default_true u5) e w)
     (searchProjectsByTech_tool u5 f5 e w) \<and>
   envelope_for e ''GET_CONTRIBUTION_ACTIVITY_ERROR'' ''Failed to get contribution activity: ''
     (getContributionActivity (default_true u6) e w)
     (getContributionActivity_tool u6 e w) \<and>
   getRepositoryDetails_tool a2 e w \<noteq> None \<and>
   (listing_ends e \<longrightarrow>
      listRepositories_tool a1 e w \<noteq> None \<and>
      getRecentCommits_tool a3 e w \<noteq> None \<and>
      getRepositoryStats_tool u4 e w \<noteq> None \<and>
      searchProjectsByTech_tool u5 f5 e w \<noteq> None \<and>
      getContributionActivity_tool u6 e w \<noteq> None)"
proof (intro conjI impI)
  show "envelope_for e ''LIST_REPOSITORIES_ERROR'' ''Failed to list repositories: ''
     (listRepositories (default_true (lr_use_cache a1)) e w)
     (listRepositories_tool a1 e w)"
    unfolding listRepositories_tool_def by (rule wrapped_envelope_array)
  show "envelope_for e ''GET_RECENT_COMMITS_ERROR'' ''Failed to get recent commits: ''
     (getRecentCommits (rc_repository_name a3) (case rc_limit a3 of None \<Rightarrow> 50 | Some l \<Rightarrow> l)
        (default_true (rc_use_cache a3)) e w)
     (getRecentCommits_tool a3 e w)"
    unfolding getRecentCommits_tool_def by (rule wrapped_envelope [where g = "\<lambda>x. x"])
  show "envelope_for e ''GET_REPOSITORY_STATS_ERROR'' ''Failed to get repository stats: ''
     (getRepositoryStats (default_true u4) e w)
     (getRepositoryStats_tool u4 e w)"
    unfolding getRepositoryStats_tool_def by (rule wrapped_envelope [where g = "\<lambda>x. x"])
  show "envelope_for e ''SEARCH_PROJECTS_ERROR'' ''Failed to search projects: ''
     (searchProjectsByTech f5 (default_true u5) e w)
     (searchProjectsByTech_tool u5 f5 e w)"
    unfolding searchProjectsByTech_tool_def by (rule wrapped_envelope_array [where g = "\<lambda>x. x"])
  show "envelope_for e ''GET_CONTRIBUTION_ACTIVITY_ERROR'' ''Failed to get contribution activity: ''
     (getContributionActivity (default_true u6) e w)
     (getContributionActivity_tool u6 e w)"
    unfolding getContributionActivity_tool_def by (rule wrapped_envelope [where g = "\<lambda>x. x"])
  show "getRepositoryDetails_tool a2 e w \<noteq> None"
    by (rule returns_details_tool)
next
  assume "rd_repository_name a2 = Some n \<and> n \<noteq> []"
  then show "envelope_for e ''GET_REPOSITORY_DETAILS_ERROR'' ''Failed to get repository details: ''
        (getRepositoryDetails n (default_true (rd_use_cache a2)) e w)
        (getRepositoryDetails_tool a2 e w)"
    by (simp add: details_envelope)
next
  assume "\<not> truthy_str (rd_repository_name a2)"
  then show "envelope_for e ''GET_REPOSITORY_DETAILS_ERROR'' ''Failed to get repository details: ''
        (io_throw (Error ''repository_name is required'') w
           :: ((thrown + RepositoryDetailsResponse) \<times> world) option)
        (getRepositoryDetails_tool a2 e w)"
    by (rule details_name_required)
next
  assume l: "listing_ends e"
  show "listRepositories_tool a1 e w \<noteq> None"
    unfolding listRepositories_tool_def
    by (rule returns_tool) (intro returns_bind returns_listRepositories [OF l] returns_array_get)
  show "getRecentCommits_tool a3 e w \<noteq> None"
    unfolding getRecentCommits_tool_def
    by (rule returns_tool) (rule returns_getRecentCommits [OF l])
  show "getRepositoryStats_tool u4 e w \<noteq> None"
    unfolding getRepositoryStats_tool_def
    by (rule returns_tool) (rule returns_getRepositoryStats [OF l])
  show "searchProjectsByTech_tool u5 f5 e w \<noteq> None"
    unfolding searchProjectsByTech_tool_def
    by (rule returns_tool)
       (intro returns_bind returns_searchProjectsByTech [OF l] returns_array_get)
  show "getContributionActivity_tool u6 e w \<noteq> None"
    unfolding getContributionActivity_tool_def
    by (rule returns_tool) (rule returns_getContributionActivity [OF l])
qed

text \<open>
  The claim as stated fails for an input on which the listing of repositories does not
  end: against a remote that answers every page with 100 repositories, the loop of
  \<open>listRepositories\<close> asks for page after page, and \<open>get_repository_stats\<close> returns no
  envelope at all.
\<close>

theorem tools_return_envelope_counterexample:
  "getRepositoryStats_tool None endless_env empty_world = None"
  by (rule endless_stats_tool)

section \<open>The cached flag\<close>

lemma bind_return: "io_bind (io_return x) f = f x"
  by (simp add: io_bind_def io_return_def)

lemma wrapped_reports_cached:
  "reports_cached uc
     (io_catch (io_bind m (\<lambda>x. io_return (success_result e uc (g x))))
        (\<lambda>err. io_return (failure_result e code (msg err))) w)"
  by (auto simp: reports_cached_def io_catch_def io_bind_def io_return_def
                 success_result_def failure_result_def
           split: option.splits sum.splits prod.splits)

lemma details_reports_cached:
  "reports_cached (default_true (rd_use_cache args)) (getRepositoryDetails_tool args e w)"
  unfolding getRepositoryDetails_tool_def
  by (auto simp: reports_cached_def io_catch_def io_bind_def io_return_def io_throw_def
                 success_result_def failure_result_def
           split: option.splits sum.splits prod.splits list.splits)

lemma stored_after_fetch:
  assumes "io_catch (io_bind m (\<lambda>x. io_bind (cache_set_io upd e k x) (\<lambda>_. io_return x)))
             (\<lambda>err. io_throw (h err)) w = Some (Inr v, w')"
    and "\<And>f w. sel (upd f w) = f (sel w)"
  shows "sel w' k = Some \<lparr> payload = v, inserted = clock e, ttl = cache_ttl e \<rparr>"
  using assms
  by (auto simp: io_catch_def io_bind_def io_return_def io_throw_def cache_set_io_def
                 cache_set_def nc_set_def
           split: option.splits sum.splits prod.splits)

lemma stats_stored:
  assumes "getRepositoryStats False e w = Some (Inr v, w')"
  shows "stats_cache w' () = Some \<lparr> payload = v, inserted = clock e, ttl = cache_ttl e \<rparr>"
proof -
  have "getRepositoryStats False e = io_catch
              (io_bind (io_bind (listRepositories False e) array_get)
                 (\<lambda>repos.
                    io_bind (cache_set_io stats_cache_update e () (compute_stats (engine e) repos))
                      (\<lambda>_. io_return (compute_stats (engine e) repos))))
              (\<lambda>err. io_throw (handleApiError err))"
    by (simp add: getRepositoryStats_def bind_return)
  then have "io_catch
              (io_bind (io_bind (io_bind (listRepositories False e) array_get)
                          (\<lambda>repos. io_return (compute_stats (engine e) repos)))
                 (\<lambda>x. io_bind (cache_set_io stats_cache_update e () x) (\<lambda>_. io_return x)))
              (\<lambda>err. io_throw (handleApiError err)) w = Some (Inr v, w')"
    using assms
    by (auto simp: io_catch_def io_bind_def io_return_def split: option.splits sum.splits prod.splits)
  then show ?thesis
    by (rule stored_after_fetch [where sel = stats_cache]) simp
qed

lemma commits_stored:
  assumes "getRecentCommits n l False e w = Some (Inr v, w')"
  shows "commits_cache w' (commits_key n l)
           = Some \<lparr> payload = v, inserted = clock e, ttl = cache_ttl e \<rparr>"
proof -
  note a = assms [unfolded getRecentCommits_def, simplified if_False bind_return option.case]
  show ?thesis
    by (rule stored_after_fetch [where sel = commits_cache, OF a]) simp
qed

lemma tool_success_data:
  assumes "io_catch (io_bind m (\<lambda>x. io_return (success_result e uc x)))
             (\<lambda>err. io_return (failure_result e code (msg err))) w = Some (Inr res, w')"
    and "success res"
  shows "\<exists>v. m w = Some (Inr v, w') \<and> data res = Some v"
  using assms
  by (auto simp: io_catch_def io_bind_def io_return_def success_result_def failure_result_def
           split: option.splits sum.splits prod.splits)

lemma stats_tool_success:
  assumes "getRepositoryStats_tool u e w = Some (Inr res, w')" "success res"
  shows "\<exists>v. getRepositoryStats (default_true u) e w = Some (Inr v, w') \<and> data res = Some v"
  by (rule tool_success_data [OF assms(1) [unfolded getRepositoryStats_tool_def] assms(2)])

lemma commits_tool_success:
  assumes "getRecentCommits_tool a e w = Some (Inr res, w')" "success res"
  shows "\<exists>v. getRecentCommits (rc_repository_name a)
                (case rc_limit a of None \<Rightarrow> 50 | Some l \<Rightarrow> l)
                (default_true (rc_use_cache a)) e w = Some (Inr v, w') \<and> data res = Some v"
  by (rule tool_success_data [OF assms(1) [unfolded getRecentCommits_tool_def] assms(2)])

lemma fresh_stats:
  assumes "stats_cache w () = None" "repos_cache w () = None"
    and "getRepositoryStats True e w = Some (Inr v, w')"
  shows "\<exists>repos w1. fetch_pages e 1 [] w = Some (Inr repos, w1) \<and>
           v = compute_stats (engine e) (map to_metadata repos)"
  using assms
  by (auto simp: getRepositoryStats_def listRepositories_def io_catch_def io_bind_def
                 io_return_def io_throw_def cache_get_io_def cache_set_io_def cache_get_def
                 nc_get_def array_new_def array_get_def
           split: option.splits sum.splits prod.splits if_splits)

text \<open>
  C9. A successful result of each tool carries \<open>cached = use_cache\<close> (\<open>true\<close> when the
  argument is omitted), whatever the cache held: with nothing cached,
  \<open>get_repository_stats\<close> reports \<open>cached = true\<close> on data computed from freshly fetched
  pages; with \<open>use_cache = false\<close> it reports \<open>cached = false\<close> and the cache holds the
  fresh result afterwards, and likewise for \<open>get_recent_commits\<close>.
\<close>

theorem cached_flag_echoes_use_cache:
  "reports_cached (default_true (lr_use_cache a1)) (listRepositories_tool a1 e w) \<and>
   reports_cached (default_true (rd_use_cache a2)) (getRepositoryDetails_tool a2 e w) \<and>
   reports_cached (default_true (rc_use_cache a3)) (getRecentCommits_tool a3 e w) \<and>
   reports_cached (default_true u4) (getRepositoryStats_tool u4 e w) \<and>
   reports_cached (default_true u5) (searchProjectsByTech_tool u5 f5 e w) \<and>
   reports_cached (default_true u6) (getContributionActivity_tool u6 e w) \<and>
   (stats_cache w () = None \<and> repos_cache w () = None \<and>
    getRepositoryStats_tool None e w = Some (Inr res, w') \<and> success res \<longrightarrow>
      cached res = Some True \<and>
      (\<exists>repos w1. fetch_pages e 1 [] w = Some (Inr repos, w1) \<and>
         data res = Some (compute_stats (engine e) (map to_metadata repos)))) \<and>
   (getRepositoryStats_tool (Some False) e w = Some (Inr res, w') \<and> success res \<longrightarrow>
      cached res = Some False \<and>
      (\<exists>v. data res = Some v \<and>
         stats_cache w' () = Some \<lparr> payload = v, inserted = clock e, ttl = cache_ttl e \<rparr>)) \<and>
   (rc_use_cache a3 = Some False \<and>
    getRecentCommits_tool a3 e w = Some (Inr res3, w') \<and> success res3 \<longrightarrow>
      cached res3 = Some False \<and>
      (\<exists>v. data res3 = Some v \<and>
         commits_cache w' (commits_key (rc_repository_name a3)
                             (case rc_limit a3 of None \<Rightarrow> 50 | Some l \<Rightarrow> l))
           = Some \<lparr> payload = v, inserted = clock e, ttl = cache_ttl e \<rparr>))"
proof (intro conjI impI)
  show "reports_cached (default_true (lr_use_cache a1)) (listRepositories_tool a1 e w)"
    unfolding listRepositories_tool_def by (rule wrapped_reports_cached)
  show "reports_cached (default_true (rd_use_cache a2)) (getRepositoryDetails_tool a2 e w)"
    by (rule details_reports_cached)
  show "reports_cached (default_true (rc_use_cache a3)) (getRecentCommits_tool a3 e w)"
    unfolding getRecentCommits_tool_def by (rule wrapped_reports_cached [where g = "\<lambda>x. x"])
  show "reports_cached (default_true u4) (getRepositoryStats_tool u4 e w)"
    unfolding getRepositoryStats_tool_def by (rule wrapped_reports_cached [where g = "\<lambda>x. x"])
  show "reports_cached (default_true u5) (searchProjectsByTech_tool u5 f5 e w)"
    unfolding searchProjectsByTech_tool_def by (rule wrapped_reports_cached [where g = "\<lambda>x. x"])
  show "reports_cached (default_true u6) (getContributionActivity_tool u6 e w)"
    unfolding getContributionActivity_tool_def
    by (rule wrapped_reports_cached [where g = "\<lambda>x. x"])
next
  assume a: "stats_cache w () = None \<and> repos_cache w () = None \<and>
    getRepositoryStats_tool None e w = Some (Inr res, w') \<and> success res"
  have r: "reports_cached (default_true None) (getRepositoryStats_tool None e w)"
    unfolding getRepositoryStats_tool_def by (rule wrapped_reports_cached [where g = "\<lambda>x. x"])
  with a show "cached res = Some True"
    by (simp add: reports_cached_def default_true_def)
  from a obtain v where v: "getRepositoryStats True e w = Some (Inr v, w')" "data res = Some v"
    using stats_tool_success [of None e w res w'] by (auto simp: default_true_def)
  with a show "\<exists>repos w1. fetch_pages e 1 [] w = Some (Inr repos, w1) \<and>
         data res = Some (compute_stats (engine e) (map to_metadata repos))"
    using fresh_stats [of w e v w'] by auto
next
  assume a: "getRepositoryStats_tool (Some False) e w = Some (Inr res, w') \<and> success res"
  have r: "reports_cached (default_true (Some False)) (getRepositoryStats_tool (Some False) e w)"
    unfolding getRepositoryStats_tool_def by (rule wrapped_reports_cached [where g = "\<lambda>x. x"])
  with a show "cached res = Some False"
    by (simp add: reports_cached_def default_true_def)
  from a obtain v where v: "getRepositoryStats False e w = Some (Inr v, w')" "data res = Some v"
    using stats_tool_success [of "Some False" e w res w'] by (auto simp: default_true_def)
  then show "\<exists>v. data res = Some v \<and>
         stats_cache w' () = Some \<lparr> payload = v, inserted = clock e, ttl = cache_ttl e \<rparr>"
    using stats_stored by auto
next
  assume a: "rc_use_cache a3 = Some False \<and>
    getRecentCommits_tool a3 e w = Some (Inr res3, w') \<and> success res3"
  have r: "reports_cached (default_true (rc_use_cache a3)) (getRecentCommits_tool a3 e w)"
    unfolding getRecentCommits_tool_def by (rule wrapped_reports_cached [where g = "\<lambda>x. x"])
  with a show "cached res3 = Some False"
    by (simp add: reports_cached_def default_true_def)
  let ?l = "case rc_limit a3 of None \<Rightarrow> 50 | Some l \<Rightarrow> l"
  from a obtain v where v: "getRecentCommits (rc_repository_name a3) ?l False e w = Some (Inr v, w')"
      "data res3 = Some v"
    using commits_tool_success [of a3 e w res3 w'] by (auto simp: default_true_def)
  then show "\<exists>v. data res3 = Some v \<and>
         commits_cache w' (commits_key (rc_repository_name a3) ?l)
           = Some \<lparr> payload = v, inserted = clock e, ttl = cache_ttl e \<rparr>"
    using commits_stored by auto
qed

section \<open>README\<close>

lemma readme_absent_empty:
  assumes "getReadme e n = Inl err"
    and "uc \<longrightarrow> fst (cache_get (clock e) n (readme_cache w)) \<in> {None, Some []}"
  shows "\<exists>w'. getRepositoryReadme n uc e w = Some (Inr [], w')"
  using assms
  by (auto simp: getRepositoryReadme_def io_catch_def io_bind_def io_return_def
                 cache_get_io_def cache_set_io_def request_io_def
           split: option.splits sum.splits prod.splits list.splits)

lemma details_with_absent_readme:
  assumes "rd_repository_name a = Some n" "n \<noteq> []" "rd_include_readme a = Some True"
    and "getRepositoryDetails n (default_true (rd_use_cache a)) e w = Some (Inr repo, w1)"
    and "getReadme e n = Inl err"
    and "default_true (rd_use_cache a) \<longrightarrow>
           fst (cache_get (clock e) n (readme_cache w1)) \<in> {None, Some []}"
  shows "\<exists>w'. getRepositoryDetails_tool a e w
           = Some (Inr (success_result e (default_true (rd_use_cache a))
                          \<lparr> rd_repository = repo, rd_readme = Some [] \<rparr>), w')"
proof -
  obtain c cs where n: "n = c # cs" using assms(2) by (cases n) auto
  obtain w2 where "getRepositoryReadme n (default_true (rd_use_cache a)) e w1 = Some (Inr [], w2)"
    using readme_absent_empty [OF assms(5,6)] by blast
  then show ?thesis
    using assms(1,3,4) n
    by (simp add: getRepositoryDetails_tool_def io_catch_def io_bind_def io_return_def)
qed

text \<open>
  C7. \<open>getRepositoryReadme\<close> always returns a string and never raises. When the fetch of
  the README fails and the cache holds no non-empty README, it returns the empty string,
  and \<open>get_repository_details\<close> with \<open>include_readme = true\<close> then succeeds with an empty
  README, provided the repository itself could be fetched.
\<close>

theorem readme_absence_is_empty:
  "(\<exists>s w'. getRepositoryReadme n uc e w = Some (Inr s, w')) \<and>
   (getReadme e n = Inl err \<and>
    (uc \<longrightarrow> fst (cache_get (clock e) n (readme_cache w)) \<in> {None, Some []}) \<longrightarrow>
      (\<exists>w'. getRepositoryReadme n uc e w = Some (Inr [], w'))) \<and>
   (rd_repository_name a = Some n \<and> n \<noteq> [] \<and> rd_include_readme a = Some True \<and>
    getRepositoryDetails n (default_true (rd_use_cache a)) e w = Some (Inr repo, w1) \<and>
    getReadme e n = Inl err \<and>
    (default_true (rd_use_cache a) \<longrightarrow>
       fst (cache_get (clock e) n (readme_cache w1)) \<in> {None, Some []}) \<longrightarrow>
      (\<exists>w'. getRepositoryDetails_tool a e w
           = Some (Inr (success_result e (default_true (rd_use_cache a))
                          \<lparr> rd_repository = repo, rd_readme = Some [] \<rparr>), w')))"
  using readme_returns_string readme_absent_empty details_with_absent_readme
  by (intro conjI impI) blast+

section \<open>Cross-repository commits\<close>

lemma slice0_take: "0 \<le> n \<Longrightarrow> slice0 n xs = take (nat n) xs"
  by (simp add: slice0_def)

lemma length_slice0: "0 \<le> n \<Longrightarrow> length (slice0 n xs) \<le> nat n"
  by (simp add: slice0_def)

lemma sorted_wrt_slice0: "sorted_wrt P xs \<Longrightarrow> sorted_wrt P (slice0 n xs)"
  by (simp add: slice0_def sorted_wrt_take)

lemma mset_take_subset: "mset (take n xs) \<subseteq># mset xs"
proof -
  have "mset xs = mset (take n xs) + mset (drop n xs)"
    by (metis append_take_drop_id mset_append)
  then show ?thesis by simp
qed

lemma mset_slice0_subset: "mset (slice0 n xs) \<subseteq># mset xs"
  by (simp add: slice0_def mset_take_subset)

lemma slice0_all: "int (length xs) \<le> n \<Longrightarrow> slice0 n xs = xs"
  by (simp add: slice0_def)

lemma sorted_insort_key:
  fixes key :: "'a \<Rightarrow> int"
  assumes "\<And>a b. a \<in> insert x (set xs) \<Longrightarrow> b \<in> insert x (set xs) \<Longrightarrow>
             (cmp a b \<le> 0) = (key b \<le> key a)"
    and "sorted_wrt (\<lambda>a b. key b \<le> key a) xs"
  shows "sorted_wrt (\<lambda>a b. key b \<le> key a) (insort_cmp cmp x xs)"
  using assms
proof (induction xs)
  case Nil
  then show ?case by simp
next
  case (Cons y ys)
  show ?case
  proof (cases "cmp x y \<le> 0")
    case True
    then have "key y \<le> key x" using Cons.prems(1) [of x y] by simp
    moreover have "\<forall>z \<in> set ys. key z \<le> key y" using Cons.prems(2) by simp
    ultimately show ?thesis using True Cons.prems(2) by auto
  next
    case False
    then have xy: "key x \<le> key y" using Cons.prems(1) [of x y] by simp
    have "sorted_wrt (\<lambda>a b. key b \<le> key a) (insort_cmp cmp x ys)"
      using Cons.IH Cons.prems by auto
    moreover have "\<forall>z \<in> set (insort_cmp cmp x ys). key z \<le> key y"
      using xy Cons.prems(2) by (auto simp: set_insort_cmp)
    ultimately show ?thesis using False by simp
  qed
qed

lemma sorted_js_sort_key:
  fixes key :: "'a \<Rightarrow> int"
  assumes "\<And>a b. a \<in> set xs \<Longrightarrow> b \<in> set xs \<Longrightarrow> (cmp a b \<le> 0) = (key b \<le> key a)"
  shows "sorted_wrt (\<lambda>a b. key b \<le> key a) (js_sort cmp xs)"
  using assms unfolding js_sort_def
proof (induction xs)
  case Nil
  then show ?case by simp
next
  case (Cons x xs)
  have "sorted_wrt (\<lambda>a b. key b \<le> key a) (foldr (insort_cmp cmp) xs [])"
    using Cons by simp
  moreover have "set (foldr (insort_cmp cmp) xs []) = set xs"
    using set_js_sort [of cmp xs] by (simp add: js_sort_def)
  ultimately have "sorted_wrt (\<lambda>a b. key b \<le> key a)
      (insort_cmp cmp x (foldr (insort_cmp cmp) xs []))"
    using Cons.prems by (intro sorted_insort_key) auto
  then show ?case by simp
qed

lemma date_difference:
  assumes "\<forall>c \<in> set cs. date c \<noteq> None" "a \<in> set cs" "b \<in> set cs"
  shows "cmp_date_desc (date a) (date b) = the (date b) - the (date a)"
proof -
  have "date a \<noteq> None" "date b \<noteq> None" using assms by auto
  then obtain ta tb where "date a = Some ta" "date b = Some tb"
    by (cases "date a"; cases "date b") auto
  then show ?thesis by (simp add: cmp_date_desc_def)
qed

lemma sorted_commits_desc:
  assumes "\<forall>c \<in> set cs. date c \<noteq> None"
  shows "sorted_wrt (\<lambda>a b. the (date b) \<le> the (date a))
           (js_sort (\<lambda>a b. cmp_date_desc (date a) (date b)) cs)"
proof (rule sorted_js_sort_key)
  fix a b assume "a \<in> set cs" "b \<in> set cs"
  then show "(cmp_date_desc (date a) (date b) \<le> 0) = (the (date b) \<le> the (date a))"
    using date_difference [OF assms] by simp
qed

text \<open>When every date is valid the comparator is consistent and the order is the stable one.\<close>

lemma engine_sort_valid_dates:
  assumes "\<forall>c \<in> set cs. date c \<noteq> None"
  shows "engine_sort eng (\<lambda>a b. cmp_date_desc (date a) (date b)) cs
           = js_sort (\<lambda>a b. cmp_date_desc (date a) (date b)) cs"
proof (rule engine_sort_consistent)
  show "consistent (\<lambda>a b. cmp_date_desc (date a) (date b)) cs"
    by (rule consistent_key [where key = "\<lambda>c. the (date c)"])
       (simp add: date_difference [OF assms])
qed

lemma repo_commits_run:
  "repo_commits e r w
     = Some (Inr (commits_of e r), w\<lparr> requests := requests w @ [ListCommits (name r) 5] \<rparr>)"
  by (simp add: repo_commits_def commits_of_def io_catch_def io_bind_def io_return_def
                request_io_def split: sum.splits)

lemma io_map_repo_commits:
  "io_map (repo_commits e) rs w
     = Some (Inr (map (commits_of e) rs),
             w\<lparr> requests := requests w @ map (\<lambda>r. ListCommits (name r) 5) rs \<rparr>)"
proof (induction rs arbitrary: w)
  case Nil
  then show ?case by (simp add: io_return_def)
next
  case (Cons r rs)
  have A: "io_map (repo_commits e) (r # rs) w
      = (case repo_commits e r w of
           None \<Rightarrow> None
         | Some (Inl err, w') \<Rightarrow> Some (Inl err, w')
         | Some (Inr y, w') \<Rightarrow>
             Some (Inr (y # map (commits_of e) rs),
                   w'\<lparr> requests := requests w' @ map (\<lambda>r. ListCommits (name r) 5) rs \<rparr>))"
    by (simp add: io_bind_def io_return_def Cons.IH split: option.splits sum.splits prod.splits)
  have B: "(case repo_commits e r w of
           None \<Rightarrow> None
         | Some (Inl err, w') \<Rightarrow> Some (Inl err, w')
         | Some (Inr y, w') \<Rightarrow>
             Some (Inr (y # map (commits_of e) rs),
                   w'\<lparr> requests := requests w' @ map (\<lambda>r. ListCommits (name r) 5) rs \<rparr>))
      = Some (Inr (map (commits_of e) (r # rs)),
             w\<lparr> requests := requests w @ map (\<lambda>r. ListCommits (name r) 5) (r # rs) \<rparr>)"
    by (simp add: repo_commits_run)
  from A B show ?case by (rule trans)
qed

lemma cross_repo_run:
  assumes "\<not> truthy_str repoName"
    and "useCache \<longrightarrow>
           fst (cache_get (clock e) (commits_key repoName limit) (commits_cache w)) = None"
    and "io_bind (listRepositories useCache e) array_get
           (after_lookup useCache e (commits_key repoName limit) w)
           = Some (Inr repos, w1)"
  shows "\<exists>w2. getRecentCommits repoName limit useCache e w
           = Some (Inr (slice0 limit
                          (engine_sort (engine e) (\<lambda>a b. cmp_date_desc (date a) (date b))
                             (concat (map (commits_of e) (take 10 repos))))), w2) \<and>
         requests w2 = requests w1 @ map (\<lambda>r. ListCommits (name r) 5) (take 10 repos)"
proof -
  have br: "(case repoName of
               Some (c # cs) \<Rightarrow> A c cs
             | _ \<Rightarrow> B) = B" for A and B :: "CommitMetadata list io"
    using assms(1) by (auto simp: truthy_str_def split: option.splits list.splits)
  show ?thesis
  proof (cases useCache)
    case True
    then show ?thesis
      using assms(2,3)
      by (simp add: getRecentCommits_def br after_lookup_def io_bind_def io_catch_def
                    io_return_def cache_get_io_def cache_set_io_def io_map_repo_commits
                    slice0_take)
  next
    case False
    then show ?thesis
      using assms(3)
      by (simp add: getRecentCommits_def br after_lookup_def io_bind_def io_catch_def
                    io_return_def cache_set_io_def io_map_repo_commits slice0_take)
  qed
qed

lemma fetch_pages_requests:
  assumes "fetch_pages e p acc w = Some y"
  shows "\<exists>ps. requests (snd y) = requests w @ map ListForUser ps"
proof (rule fetch_pages.raw_induct
         [where P = "\<lambda>e p acc w y. \<exists>ps. requests (snd y) = requests w @ map ListForUser ps",
          OF _ assms])
  fix f e p acc w y
  assume IH: "\<And>e p acc w y. f e p acc w = Some y \<Longrightarrow>
                \<exists>ps. requests (snd y) = requests w @ map ListForUser ps"
    and body: "(case listForUser e p of
                  Inl err \<Rightarrow> Some (Inl err, w\<lparr> requests := requests w @ [ListForUser p] \<rparr>)
                | Inr response_data \<Rightarrow>
                    if length response_data = 100
                    then f e (p + 1) (acc @ response_data)
                           (w\<lparr> requests := requests w @ [ListForUser p] \<rparr>)
                    else Some (Inr (acc @ response_data),
                               w\<lparr> requests := requests w @ [ListForUser p] \<rparr>)) = Some y"
  show "\<exists>ps. requests (snd y) = requests w @ map ListForUser ps"
  proof (cases "listForUser e p")
    case (Inl err)
    then have "requests (snd y) = requests w @ map ListForUser [p]"
      using body by auto
    then show ?thesis by blast
  next
    case (Inr d)
    show ?thesis
    proof (cases "length d = 100")
      case True
      then have "f e (p + 1) (acc @ d) (w\<lparr> requests := requests w @ [ListForUser p] \<rparr>) = Some y"
        using body Inr by simp
      then obtain ps where "requests (snd y)
          = requests (w\<lparr> requests := requests w @ [ListForUser p] \<rparr>) @ map ListForUser ps"
        using IH by blast
      then have "requests (snd y) = requests w @ map ListForUser (p # ps)"
        by simp
      then show ?thesis by blast
    next
      case False
      then have "requests (snd y) = requests w @ map ListForUser [p]"
        using body Inr by auto
      then show ?thesis by blast
    qed
  qed
qed

lemma listRepositories_requests:
  assumes "io_bind (listRepositories uc e) array_get w = Some (r, w1)"
  shows "\<exists>ps. requests w1 = requests w @ map ListForUser ps"
proof -
  have hit: "\<exists>ps. requests w = requests w @ map ListForUser ps"
    by (rule exI [of _ "[]"]) simp
  have fetched: "\<exists>ps. requests wa = requests w0 @ map ListForUser ps"
    if f: "fetch_pages e (Suc 0) [] w0 = Some (x, wa)" for w0 x wa
    using fetch_pages_requests [OF f] by simp
  show ?thesis
    using assms hit
    by (auto simp: listRepositories_def io_bind_def io_catch_def io_return_def io_throw_def
                   cache_get_io_def cache_set_io_def array_new_def array_get_def
             split: if_splits option.splits sum.splits prod.splits
             dest!: fetched)
qed

lemma requests_after_lookup: "requests (after_lookup uc e k w) = requests w"
  by (simp add: after_lookup_def)

text \<open>
  C4 (as amended). Without a repository name, on a cache miss and once the repository list
  has been obtained, \<open>getRecentCommits\<close> requests commits for the first 10 repositories of
  the list, in order, with 5 per page, and for no other repository; each of them
  contributes at most 5 commits when the remote honours \<open>per_page\<close>. It returns
  \<open>slice(0, limit)\<close> of the sorted merge of what it got: commits of the merge, at most
  \<open>limit\<close> of them when \<open>limit \<ge> 0\<close>, and, when every commit date is valid, the first of
  the merge in descending order of date.
\<close>

theorem recent_commits_first_ten:
  "\<not> truthy_str repoName \<and>
   (useCache \<longrightarrow>
      fst (cache_get (clock e) (commits_key repoName limit) (commits_cache w)) = None) \<and>
   io_bind (listRepositories useCache e) array_get
     (after_lookup useCache e (commits_key repoName limit) w)
     = Some (Inr repos, w1) \<longrightarrow>
   (\<exists>cs w2 ps. getRecentCommits repoName limit useCache e w = Some (Inr cs, w2) \<and>
      requests w2 = requests w @ map ListForUser ps
                      @ map (\<lambda>r. ListCommits (name r) 5) (take 10 repos) \<and>
      cs = slice0 limit
             (engine_sort (engine e) (\<lambda>a b. cmp_date_desc (date a) (date b))
                (concat (map (commits_of e) (take 10 repos)))) \<and>
      mset cs \<subseteq># mset (concat (map (commits_of e) (take 10 repos))) \<and>
      (0 \<le> limit \<longrightarrow> length cs \<le> nat limit) \<and>
      ((\<forall>c \<in> set (concat (map (commits_of e) (take 10 repos))). date c \<noteq> None) \<longrightarrow>
         cs = slice0 limit
                (js_sort (\<lambda>a b. cmp_date_desc (date a) (date b))
                   (concat (map (commits_of e) (take 10 repos)))) \<and>
         sorted_wrt (\<lambda>a b. the (date b) \<le> the (date a)) cs) \<and>
      (honours_per_page e (take 10 repos) \<longrightarrow>
         (\<forall>repo \<in> set (take 10 repos). length (commits_of e repo) \<le> 5)))"
proof (intro impI)
  assume a: "\<not> truthy_str repoName \<and>
   (useCache \<longrightarrow>
      fst (cache_get (clock e) (commits_key repoName limit) (commits_cache w)) = None) \<and>
   io_bind (listRepositories useCache e) array_get
     (after_lookup useCache e (commits_key repoName limit) w)
     = Some (Inr repos, w1)"
  let ?m = "concat (map (commits_of e) (take 10 repos))"
  let ?cs = "slice0 limit (engine_sort (engine e) (\<lambda>a b. cmp_date_desc (date a) (date b)) ?m)"
  from a have "io_bind (listRepositories useCache e) array_get
     (after_lookup useCache e (commits_key repoName limit) w) = Some (Inr repos, w1)" by simp
  from listRepositories_requests [OF this]
  obtain ps where ps: "requests w1 = requests w @ map ListForUser ps"
    unfolding requests_after_lookup by blast
  from a obtain w2 where r: "getRecentCommits repoName limit useCache e w = Some (Inr ?cs, w2)"
    and q: "requests w2 = requests w1 @ map (\<lambda>r. ListCommits (name r) 5) (take 10 repos)"
    using cross_repo_run [of repoName useCache e limit w repos w1] by blast
  have rq: "requests w2 = requests w @ map ListForUser ps
                      @ map (\<lambda>r. ListCommits (name r) 5) (take 10 repos)"
    using q ps by simp
  have sub: "mset ?cs \<subseteq># mset ?m"
    using mset_slice0_subset [of limit "engine_sort (engine e) (\<lambda>a b. cmp_date_desc (date a) (date b)) ?m"]
    by (simp add: mset_engine_sort)
  have len: "0 \<le> limit \<longrightarrow> length ?cs \<le> nat limit"
    by (simp add: length_slice0)
  have val: "(\<forall>c \<in> set ?m. date c \<noteq> None) \<longrightarrow>
         ?cs = slice0 limit (js_sort (\<lambda>a b. cmp_date_desc (date a) (date b)) ?m) \<and>
         sorted_wrt (\<lambda>a b. the (date b) \<le> the (date a)) ?cs"
    by (simp add: engine_sort_valid_dates sorted_wrt_slice0 sorted_commits_desc)
  have per: "honours_per_page e (take 10 repos) \<longrightarrow>
         (\<forall>repo \<in> set (take 10 repos). length (commits_of e repo) \<le> 5)"
    by (auto simp: honours_per_page_def commits_of_def split: sum.splits)
  show "\<exists>cs w2 ps. getRecentCommits repoName limit useCache e w = Some (Inr cs, w2) \<and>
      requests w2 = requests w @ map ListForUser ps
                      @ map (\<lambda>r. ListCommits (name r) 5) (take 10 repos) \<and>
      cs = ?cs \<and>
      mset cs \<subseteq># mset ?m \<and>
      (0 \<le> limit \<longrightarrow> length cs \<le> nat limit) \<and>
      ((\<forall>c \<in> set ?m. date c \<noteq> None) \<longrightarrow>
         cs = slice0 limit (js_sort (\<lambda>a b. cmp_date_desc (date a) (date b)) ?m) \<and>
         sorted_wrt (\<lambda>a b. the (date b) \<le> the (date a)) cs) \<and>
      (honours_per_page e (take 10 repos) \<longrightarrow>
         (\<forall>repo \<in> set (take 10 repos). length (commits_of e repo) \<le> 5))"
    using r rq sub len val per by blast
qed

lemma example_fetch:
  "fetch_pages example_env (Suc 0) [] w0
      = Some (Inr (map (\<lambda>n. example_raw_repo (replicate n CHR ''r'') (Some ''Go'') (int n)) [1..<13]),
              w0\<lparr> requests := requests w0 @ [ListForUser (Suc 0)] \<rparr>)"
  by (subst fetch_pages.simps) (simp add: example_env_def)

lemma example_listing_fresh:
  "\<exists>w1. io_bind (listRepositories uc example_env) array_get empty_world
          = Some (Inr example_repos, w1)"
  by (simp add: listRepositories_def empty_world_def io_bind_def example_fetch
                io_catch_def io_return_def cache_get_io_def cache_set_io_def cache_get_def
                nc_get_def example_repos_def array_new_def array_get_def)

lemma example_listing:
  "\<exists>w1. io_bind (listRepositories uc example_env) array_get
           (after_lookup uc example_env (commits_key None l) empty_world)
         = Some (Inr example_repos, w1)"
proof -
  have "after_lookup uc example_env (commits_key None l) empty_world = empty_world"
    by (simp add: after_lookup_def empty_world_def cache_get_def nc_get_def)
  then show ?thesis using example_listing_fresh [of uc] by simp
qed

lemma example_dates_valid:
  "\<forall>c \<in> set (concat (map (commits_of example_env) (take 10 example_repos))). date c \<noteq> None"
  by code_simp

theorem recent_commits_first_ten_witness:
  "\<exists>cs w2 ps. getRecentCommits None 50 True example_env empty_world = Some (Inr cs, w2) \<and>
      requests w2 = requests empty_world @ map ListForUser ps
                      @ map (\<lambda>r. ListCommits (name r) 5) (take 10 example_repos) \<and>
      cs = slice0 50
             (js_sort (\<lambda>a b. cmp_date_desc (date a) (date b))
                (concat (map (commits_of example_env) (take 10 example_repos)))) \<and>
      length cs \<le> nat 50 \<and>
      sorted_wrt (\<lambda>a b. the (date b) \<le> the (date a)) cs \<and>
      (\<forall>repo \<in> set (take 10 example_repos). length (commits_of example_env repo) \<le> 5)"
proof -
  obtain w1 where l: "io_bind (listRepositories True example_env) array_get
           (after_lookup True example_env (commits_key None 50) empty_world)
         = Some (Inr example_repos, w1)"
    using example_listing by blast
  have t: "\<not> truthy_str None" by (simp add: truthy_str_def)
  have m: "fst (cache_get (clock example_env) (commits_key None 50) (commits_cache empty_world)) = None"
    by (simp add: cache_get_def nc_get_def empty_world_def)
  have p: "(0::int) \<le> 50" by simp
  have h: "honours_per_page example_env (take 10 example_repos)"
    by code_simp
  show ?thesis
    using recent_commits_first_ten [of None True example_env 50 empty_world example_repos w1]
          l t m p h example_dates_valid
    by blast
qed

text \<open>
  The claim as stated fails for a negative \<open>limit\<close>, which the tool accepts:
  \<open>slice(0, -2)\<close> drops the last two entries instead of truncating to \<open>limit\<close>. On the
  example profile the nine commits of the first ten repositories (the third has none to
  give) come back as seven.
\<close>

lemma example_negative_limit:
  "returned (getRecentCommits None (- 2) False example_env empty_world)
     = Some (slice0 (- 2)
               (engine_sort (engine example_env) (\<lambda>a b. cmp_date_desc (date a) (date b))
                  (concat (map (commits_of example_env) (take 10 example_repos)))))"
proof -
  obtain w1 where l: "io_bind (listRepositories False example_env) array_get
           (after_lookup False example_env (commits_key None (- 2)) empty_world)
         = Some (Inr example_repos, w1)"
    using example_listing by blast
  have t: "\<not> truthy_str None" by (simp add: truthy_str_def)
  obtain w2 where "getRecentCommits None (- 2) False example_env empty_world
      = Some (Inr (slice0 (- 2)
               (engine_sort (engine example_env) (\<lambda>a b. cmp_date_desc (date a) (date b))
                  (concat (map (commits_of example_env) (take 10 example_repos))))), w2)"
    using cross_repo_run [of None False example_env "- 2" empty_world example_repos w1] l t
    by auto
  then show ?thesis by (simp add: returned_def)
qed

lemma example_sorted_shas:
  "map sha (slice0 (- 2)
               (engine_sort (engine example_env) (\<lambda>a b. cmp_date_desc (date a) (date b))
                  (concat (map (commits_of example_env) (take 10 example_repos)))))
     = [''rrrrrrrrrr'', ''rrrrrrrrr'', ''rrrrrrrr'', ''rrrrrrr'', ''rrrrrr'', ''rrrrr'', ''rrrr'']"
  by code_simp

theorem recent_commits_first_ten_counterexample:
  "map_option (map sha) (returned (getRecentCommits None (- 2) False example_env empty_world))
     = Some [''rrrrrrrrrr'', ''rrrrrrrrr'', ''rrrrrrrr'', ''rrrrrrr'', ''rrrrrr'', ''rrrrr'', ''rrrr''] \<and>
   map_option length (returned (getRecentCommits None (- 2) False example_env empty_world))
     = Some 7"
  using example_sorted_shas
  by (simp add: example_negative_limit flip: length_map [where f = sha])

lemma concat_listed:
  "concat (map (commits_of e) rs) = concat (map (commits_of e) (filter (commits_listed e) rs))"
  by (induction rs) (auto simp: commits_of_def commits_listed_def split: sum.splits)

text \<open>
  C10. In the cross-repository mode a repository whose commits cannot be listed
  contributes an empty list and raises nothing: the method and the tool still succeed,
  and what they return is made of the merged commits of the repositories whose listing
  succeeded, all of them when \<open>limit\<close> is not below their number.
\<close>

theorem per_repository_failure_swallowed:
  "(\<not> commits_listed e repo \<longrightarrow> returned (repo_commits e repo w0) = Some []) \<and>
   (\<not> truthy_str repoName \<and>
    (useCache \<longrightarrow>
       fst (cache_get (clock e) (commits_key repoName limit) (commits_cache w)) = None) \<and>
    io_bind (listRepositories useCache e) array_get
      (after_lookup useCache e (commits_key repoName limit) w)
      = Some (Inr repos, w1) \<longrightarrow>
    (\<exists>cs w2. getRecentCommits repoName limit useCache e w = Some (Inr cs, w2) \<and>
       getRecentCommits_tool
           \<lparr> rc_repository_name = repoName, rc_limit = Some limit,
             rc_use_cache = Some useCache \<rparr> e w
         = Some (Inr (success_result e useCache cs), w2) \<and>
       mset cs \<subseteq># mset (concat (map (commits_of e)
                                    (filter (commits_listed e) (take 10 repos)))) \<and>
       (int (length (concat (map (commits_of e)
                               (filter (commits_listed e) (take 10 repos))))) \<le> limit \<longrightarrow>
          mset cs = mset (concat (map (commits_of e)
                                    (filter (commits_listed e) (take 10 repos)))))))"
proof (intro impI conjI)
  assume "\<not> commits_listed e repo"
  then show "returned (repo_commits e repo w0) = Some []"
    by (simp add: repo_commits_run returned_def commits_of_def commits_listed_def
             split: sum.splits)
next
  assume a: "\<not> truthy_str repoName \<and>
    (useCache \<longrightarrow>
       fst (cache_get (clock e) (commits_key repoName limit) (commits_cache w)) = None) \<and>
    io_bind (listRepositories useCache e) array_get
      (after_lookup useCache e (commits_key repoName limit) w)
      = Some (Inr repos, w1)"
  let ?m = "concat (map (commits_of e) (filter (commits_listed e) (take 10 repos)))"
  let ?s = "engine_sort (engine e) (\<lambda>a b. cmp_date_desc (date a) (date b)) ?m"
  from a obtain w2 where r: "getRecentCommits repoName limit useCache e w
        = Some (Inr (slice0 limit ?s), w2)"
    using cross_repo_run [of repoName useCache e limit w repos w1]
          concat_listed [of e "take 10 repos"]
    by auto
  have t: "getRecentCommits_tool
           \<lparr> rc_repository_name = repoName, rc_limit = Some limit,
             rc_use_cache = Some useCache \<rparr> e w
         = Some (Inr (success_result e useCache (slice0 limit ?s)), w2)"
    using r
    by (simp add: getRecentCommits_tool_def default_true_def io_catch_def io_bind_def io_return_def)
  have sub: "mset (slice0 limit ?s) \<subseteq># mset ?m"
    using mset_slice0_subset [of limit ?s] by (simp add: mset_engine_sort)
  have all: "int (length ?m) \<le> limit \<longrightarrow> mset (slice0 limit ?s) = mset ?m"
    by (simp add: slice0_all length_engine_sort mset_engine_sort)
  show "\<exists>cs w2. getRecentCommits repoName limit useCache e w = Some (Inr cs, w2) \<and>
       getRecentCommits_tool
           \<lparr> rc_repository_name = repoName, rc_limit = Some limit,
             rc_use_cache = Some useCache \<rparr> e w
         = Some (Inr (success_result e useCache cs), w2) \<and>
       mset cs \<subseteq># mset ?m \<and>
       (int (length ?m) \<le> limit \<longrightarrow> mset cs = mset ?m)"
    using r t sub all by blast
qed

lemma example_merged_length:
  "int (length (concat (map (commits_of example_env)
                          (filter (commits_listed example_env) (take 10 example_repos))))) \<le> 50"
  by code_simp

theorem per_repository_failure_swallowed_witness:
  "\<not> commits_listed example_env (example_repos ! 2) \<and>
   returned (repo_commits example_env (example_repos ! 2) empty_world) = Some [] \<and>
   (\<exists>cs w2. getRecentCommits_tool
           \<lparr> rc_repository_name = None, rc_limit = Some 50, rc_use_cache = Some False \<rparr>
           example_env empty_world
        = Some (Inr (success_result example_env False cs), w2) \<and>
      mset cs = mset (concat (map (commits_of example_env)
                                (filter (commits_listed example_env) (take 10 example_repos)))))"
proof -
  obtain w1 where l: "io_bind (listRepositories False example_env) array_get
           (after_lookup False example_env (commits_key None 50) empty_world)
         = Some (Inr example_repos, w1)"
    using example_listing by blast
  have t: "\<not> truthy_str None" by (simp add: truthy_str_def)
  have f: "\<not> commits_listed example_env (example_repos ! 2)"
    by code_simp
  show ?thesis
    using per_repository_failure_swallowed
            [of example_env "example_repos ! 2" empty_world None False 50 empty_world
                example_repos w1]
          l t f example_merged_length
    by blast
qed

section \<open>The properties on the example profile\<close>

lemma example_stats_tool:
  "\<exists>w'. getRepositoryStats_tool u example_env empty_world
     = Some (Inr (success_result example_env (default_true u)
                    (compute_stats (engine example_env) example_repos)), w')"
  by (simp add: getRepositoryStats_tool_def getRepositoryStats_def
                listRepositories_def empty_world_def io_bind_def example_fetch
                io_catch_def io_return_def cache_get_io_def cache_set_io_def cache_get_def
                nc_get_def example_repos_def comp_def array_new_def array_get_def)

lemma example_listing_ends: "listing_ends failing_env"
proof -
  have "page_stops failing_env (Suc 0)"
    by (simp add: page_stops_def failing_env_def)
  then show ?thesis unfolding listing_ends_def by blast
qed

lemma failing_stats:
  "\<exists>w'. getRepositoryStats True failing_env empty_world
     = Some (Inl (Error ''GitHub API rate limit exceeded. Please try again later.''), w')"
proof -
  have f: "fetch_pages failing_env (Suc 0) [] w0
      = Some (Inl (Error ''API rate limit exceeded''),
              w0\<lparr> requests := requests w0 @ [ListForUser (Suc 0)] \<rparr>)" for w0
    by (subst fetch_pages.simps) (simp add: failing_env_def)
  have h: "handleApiError (handleApiError (Error ''API rate limit exceeded''))
             = Error ''GitHub API rate limit exceeded. Please try again later.''"
    by code_simp
  show ?thesis
    by (simp add: getRepositoryStats_def listRepositories_def
                  empty_world_def io_bind_def f h io_catch_def io_return_def io_throw_def
                  cache_get_io_def cache_get_def nc_get_def)
qed

lemma example_details:
  "\<exists>w1. getRepositoryDetails ''r'' True example_env empty_world
           = Some (Inr ((example_raw_repo ''r'' (Some ''Go'') 1)\<lparr> repo_topics := Some [] \<rparr>), w1) \<and>
         readme_cache w1 = (\<lambda>_. None)"
  by (simp add: getRepositoryDetails_def example_env_def empty_world_def io_bind_def
                io_catch_def io_return_def cache_get_io_def cache_set_io_def cache_get_def
                nc_get_def request_io_def)

theorem tools_return_envelope_witness:
  "listing_ends failing_env \<and>
   (\<exists>res w'. getRepositoryStats_tool None failing_env empty_world = Some (Inr res, w') \<and>
      is_failure failing_env ''GET_REPOSITORY_STATS_ERROR''
        ''Failed to get repository stats: GitHub API rate limit exceeded. Please try again later.''
        res) \<and>
   (\<exists>res w'. getRepositoryDetails_tool
                \<lparr> rd_repository_name = Some ''r'', rd_use_cache = None, rd_include_readme = None \<rparr>
                example_env empty_world = Some (Inr res, w') \<and>
      is_success example_env res) \<and>
   (\<exists>res w'. getRepositoryDetails_tool
                \<lparr> rd_repository_name = None, rd_use_cache = None, rd_include_readme = None \<rparr>
                example_env empty_world = Some (Inr res, w') \<and>
      is_failure example_env ''GET_REPOSITORY_DETAILS_ERROR''
        ''Failed to get repository details: repository_name is required'' res)"
proof -
  let ?a = "\<lparr> rd_repository_name = Some ''r'', rd_use_cache = None, rd_include_readme = None \<rparr>"
  let ?b = "\<lparr> rd_repository_name = None, rd_use_cache = None, rd_include_readme = None \<rparr>"
  obtain w1 where s: "getRepositoryStats (default_true None) failing_env empty_world
     = Some (Inl (Error ''GitHub API rate limit exceeded. Please try again later.''), w1)"
    using failing_stats by (auto simp: default_true_def)
  obtain w2 where d: "getRepositoryDetails ''r'' (default_true (rd_use_cache ?a)) example_env empty_world
           = Some (Inr ((example_raw_repo ''r'' (Some ''Go'') 1)\<lparr> repo_topics := Some [] \<rparr>), w2)"
    using example_details by (auto simp: default_true_def)
  have e1: "envelope_for failing_env ''GET_REPOSITORY_STATS_ERROR''
              ''Failed to get repository stats: ''
              (getRepositoryStats (default_true None) failing_env empty_world)
              (getRepositoryStats_tool None failing_env empty_world)"
    and r1: "listing_ends failing_env \<longrightarrow>
              getRepositoryStats_tool None failing_env empty_world \<noteq> None"
    using tools_return_envelope [where e = failing_env and w = empty_world and ?u4.0 = None]
    by blast+
  have e2: "envelope_for example_env ''GET_REPOSITORY_DETAILS_ERROR''
              ''Failed to get repository details: ''
              (getRepositoryDetails ''r'' (default_true (rd_use_cache ?a)) example_env empty_world)
              (getRepositoryDetails_tool ?a example_env empty_world)"
    using tools_return_envelope [where e = example_env and w = empty_world and ?a2.0 = ?a
            and n = "''r''"]
    by simp
  have e3: "envelope_for example_env ''GET_REPOSITORY_DETAILS_ERROR''
              ''Failed to get repository details: ''
              (io_throw (Error ''repository_name is required'') empty_world
                 :: ((thrown + RepositoryDetailsResponse) \<times> world) option)
              (getRepositoryDetails_tool ?b example_env empty_world)"
    using tools_return_envelope [where e = example_env and w = empty_world and ?a2.0 = ?b]
    by (simp add: truthy_str_def)
  have 1: "\<exists>res w'. getRepositoryStats_tool None failing_env empty_world = Some (Inr res, w') \<and>
      is_failure failing_env ''GET_REPOSITORY_STATS_ERROR''
        ''Failed to get repository stats: GitHub API rate limit exceeded. Please try again later.''
        res"
    using envelope_failure [OF e1 s] by (simp add: getErrorMessage_def)
  have 2: "\<exists>res w'. getRepositoryDetails_tool ?a example_env empty_world = Some (Inr res, w') \<and>
      is_success example_env res"
    using envelope_success [OF e2 d] .
  have 3: "\<exists>res w'. getRepositoryDetails_tool ?b example_env empty_world = Some (Inr res, w') \<and>
      is_failure example_env ''GET_REPOSITORY_DETAILS_ERROR''
        ''Failed to get repository details: repository_name is required'' res"
    using envelope_failure [OF e3, of "Error ''repository_name is required''" empty_world]
    by (simp add: io_throw_def getErrorMessage_def)
  show ?thesis using 1 2 3 r1 example_listing_ends by blast
qed

lemma example_commits_tool:
  "\<exists>v w'. getRecentCommits_tool
            \<lparr> rc_repository_name = None, rc_limit = None, rc_use_cache = Some False \<rparr>
            example_env empty_world
     = Some (Inr (success_result example_env False v), w')"
proof -
  obtain w1 where l: "io_bind (listRepositories False example_env) array_get
           (after_lookup False example_env (commits_key None 50) empty_world)
         = Some (Inr example_repos, w1)"
    using example_listing by blast
  have t: "\<not> truthy_str None" by (simp add: truthy_str_def)
  obtain v w2 where "getRecentCommits None 50 False example_env empty_world = Some (Inr v, w2)"
    using cross_repo_run [of None False example_env 50 empty_world example_repos w1] l t
    by auto
  then show ?thesis
    by (auto simp: getRecentCommits_tool_def default_true_def io_catch_def io_bind_def
                   io_return_def)
qed

theorem cached_flag_echoes_use_cache_witness:
  "(\<exists>res w'. getRepositoryStats_tool None example_env empty_world = Some (Inr res, w') \<and>
      success res \<and> cached res = Some True \<and>
      (\<exists>repos w1. fetch_pages example_env 1 [] empty_world = Some (Inr repos, w1) \<and>
         data res = Some (compute_stats (engine example_env) (map to_metadata repos)))) \<and>
   (\<exists>res w'. getRepositoryStats_tool (Some False) example_env empty_world = Some (Inr res, w') \<and>
      success res \<and> cached res = Some False \<and>
      (\<exists>v. data res = Some v \<and>
         stats_cache w' () = Some \<lparr> payload = v, inserted = clock example_env,
                                    ttl = cache_ttl example_env \<rparr>)) \<and>
   (\<exists>res w'. getRecentCommits_tool
                \<lparr> rc_repository_name = None, rc_limit = None, rc_use_cache = Some False \<rparr>
                example_env empty_world = Some (Inr res, w') \<and>
      success res \<and> cached res = Some False \<and>
      (\<exists>v. data res = Some v \<and>
         commits_cache w' (''all'', 50)
           = Some \<lparr> payload = v, inserted = clock example_env,
                      ttl = cache_ttl example_env \<rparr>))"
proof -
  let ?t = "success_result example_env True (compute_stats (engine example_env) example_repos)"
  let ?f = "success_result example_env False (compute_stats (engine example_env) example_repos)"
  let ?a = "\<lparr> rc_repository_name = None, rc_limit = None, rc_use_cache = Some False \<rparr>"
  obtain wt where t: "getRepositoryStats_tool None example_env empty_world = Some (Inr ?t, wt)"
    using example_stats_tool [of None] by (auto simp: default_true_def)
  obtain wf where f: "getRepositoryStats_tool (Some False) example_env empty_world = Some (Inr ?f, wf)"
    using example_stats_tool [of "Some False"] by (auto simp: default_true_def)
  obtain v wc where c: "getRecentCommits_tool ?a example_env empty_world
      = Some (Inr (success_result example_env False v), wc)"
    using example_commits_tool by blast
  have s: "success ?t" "success ?f" "success (success_result example_env False v)"
    by (simp_all add: success_result_def)
  have m: "stats_cache empty_world () = None" "repos_cache empty_world () = None"
    by (simp_all add: empty_world_def)
  have k: "commits_key (rc_repository_name ?a) (case rc_limit ?a of None \<Rightarrow> 50 | Some l \<Rightarrow> l)
             = (''all'', 50)"
    by (simp add: commits_key_def)
  have "cached ?t = Some True \<and>
      (\<exists>repos w1. fetch_pages example_env 1 [] empty_world = Some (Inr repos, w1) \<and>
         data ?t = Some (compute_stats (engine example_env) (map to_metadata repos)))"
    using cached_flag_echoes_use_cache [where e = example_env and w = empty_world
            and res = ?t and w' = wt] t s m
    by blast
  moreover have "cached ?f = Some False \<and>
      (\<exists>v. data ?f = Some v \<and>
         stats_cache wf () = Some \<lparr> payload = v, inserted = clock example_env,
                                    ttl = cache_ttl example_env \<rparr>)"
    using cached_flag_echoes_use_cache [where e = example_env and w = empty_world
            and res = ?f and w' = wf] f s
    by blast
  moreover have "cached (success_result example_env False v) = Some False \<and>
      (\<exists>v'. data (success_result example_env False v) = Some v' \<and>
         commits_cache wc (''all'', 50)
           = Some \<lparr> payload = v', inserted = clock example_env,
                      ttl = cache_ttl example_env \<rparr>)"
    using cached_flag_echoes_use_cache [where e = example_env and w = empty_world
            and ?a3.0 = ?a and ?res3.0 = "success_result example_env False v" and w' = wc] c s k
    by simp
  ultimately show ?thesis using t f c s by blast
qed

theorem readme_absence_is_empty_witness:
  "(\<exists>w'. getRepositoryReadme ''r'' True example_env empty_world = Some (Inr [], w')) \<and>
   (\<exists>w'. getRepositoryDetails_tool
          \<lparr> rd_repository_name = Some ''r'', rd_use_cache = None, rd_include_readme = Some True \<rparr>
          example_env empty_world
     = Some (Inr (success_result example_env True
                    \<lparr> rd_repository = (example_raw_repo ''r'' (Some ''Go'') 1)\<lparr> repo_topics := Some [] \<rparr>,
                      rd_readme = Some [] \<rparr>), w'))"
proof -
  let ?a = "\<lparr> rd_repository_name = Some ''r'', rd_use_cache = None, rd_include_readme = Some True \<rparr>"
  let ?repo = "(example_raw_repo ''r'' (Some ''Go'') 1)\<lparr> repo_topics := Some [] \<rparr>"
  obtain w1 where d: "getRepositoryDetails ''r'' True example_env empty_world = Some (Inr ?repo, w1)"
    and c: "readme_cache w1 = (\<lambda>_. None)"
    using example_details by blast
  have g: "getReadme example_env ''r'' = Inl (Error ''Not Found - 404'')"
    by (simp add: example_env_def)
  have m: "fst (cache_get (clock example_env) ''r'' (readme_cache w1)) \<in> {None, Some []}"
    using c by (simp add: cache_get_def nc_get_def)
  have m0: "fst (cache_get (clock example_env) ''r'' (readme_cache empty_world)) \<in> {None, Some []}"
    by (simp add: cache_get_def nc_get_def empty_world_def)
  have u: "default_true (rd_use_cache ?a) = True" by (simp add: default_true_def)
  have "\<exists>w'. getRepositoryReadme ''r'' True example_env empty_world = Some (Inr [], w')"
    using readme_absence_is_empty [where n = "''r''" and e = example_env and uc = True
            and w = empty_world and err = "Error ''Not Found - 404''"]
          g m0
    by blast
  moreover have "\<exists>w'. getRepositoryDetails_tool ?a example_env empty_world
           = Some (Inr (success_result example_env (default_true (rd_use_cache ?a))
                          \<lparr> rd_repository = ?repo, rd_readme = Some [] \<rparr>), w')"
    using readme_absence_is_empty [where a = ?a and n = "''r''" and e = example_env
            and w = empty_world and repo = ?repo and ?w1.0 = w1
            and err = "Error ''Not Found - 404''"]
          d g m u
    by simp
  ultimately show ?thesis using u by simp
qed

end
